theory Spec2Isabelle
  imports Main
begin

section \<open>The data of shell.c\<close>

text \<open>
  A \<^verbatim>\<open>char*\<close> is a string or \<^verbatim>\<open>NULL\<close>. The token array \<^verbatim>\<open>line\<close> that the
  tokenizer hands over is modelled by the list of its tokens; the \<^verbatim>\<open>NULL\<close> sentinel sits at
  index \<open>length line\<close>, and nothing is known about the array beyond it.
\<close>

type_synonym cstr = "string option"

text \<open>
  What happens when the C code leaves defined behaviour: a \<^verbatim>\<open>NULL\<close> handed to
  \<^verbatim>\<open>strcmp\<close>, \<^verbatim>\<open>execvp\<close> or \<^verbatim>\<open>readdir\<close>, which read through it, a read of
  \<^verbatim>\<open>line\<close> beyond its sentinel, a write to \<^verbatim>\<open>args\<close> at an index that the array of
  \<^verbatim>\<open>MAX_ARGS\<close> entries does not have, a read of \<^verbatim>\<open>args\<close> beyond its terminating
  \<^verbatim>\<open>NULL\<close>.
\<close>

datatype fault = NullArgument | ReadPastSentinel nat | WritePastArgs nat | ReadPastTerminator nat

text \<open>
  How a call ends for the process that makes it: it returns a value, or the process stops
  there: it exits with a status, its image is replaced (\<^verbatim>\<open>execvp\<close> succeeded, with the
  program and the argument vector), or a fault occurs.
\<close>

datatype stop = Exited int | Replaced string "string list" | Faulted fault

datatype 'a outcome = Ret 'a | Stop stop

datatype fd = Stdin | Stdout | Stderr | PipeRead nat | PipeWrite nat | FileFd string

datatype oflag = O_RDONLY | O_WRONLY | O_RDWR | O_APPEND | O_TRUNC | O_CREAT

text \<open>The texts that \<^verbatim>\<open>printf\<close> writes, with the values of their format arguments.\<close>

datatype message =
    ChildExited int int    \<comment> \<open>\<^verbatim>\<open>"\nChild %d exited with status %d\n"\<close>\<close>
  | NeedFileName           \<comment> \<open>\<^verbatim>\<open>"\nError! Need file name\n\n"\<close>\<close>
  | CannotRemove string    \<comment> \<open>\<^verbatim>\<open>"\nError! Cannot remove '%s' : File not found\n\n"\<close>\<close>
  | CannotOpenDir string   \<comment> \<open>\<^verbatim>\<open>"\nError ! Cannot open '%s' : Directory not found\n\n"\<close>\<close>
  | DirHeader string       \<comment> \<open>\<^verbatim>\<open>"%s --->"\<close>\<close>
  | Entry string           \<comment> \<open>\<^verbatim>\<open>"%s\n"\<close>\<close>
  | Newline                \<comment> \<open>\<^verbatim>\<open>"\n"\<close>\<close>
  | Prompt                 \<comment> \<open>\<^verbatim>\<open>"(%d) $ "\<close> with the process id of the caller\<close>

text \<open>
  The calls a process makes to the system and to the C library, in order, with the result the
  environment gave where the code depends on it.
\<close>

datatype event =
    Signal_SIGINT                   \<comment> \<open>\<^verbatim>\<open>signal(SIGINT, signalHandler)\<close>\<close>
  | Pipe nat bool                   \<comment> \<open>\<^verbatim>\<open>pipe\<close>: which pipe, and whether it was created\<close>
  | Fork int                        \<comment> \<open>\<^verbatim>\<open>fork\<close> and its return value\<close>
  | Dup2 fd fd
  | Close fd
  | Open string "oflag set" bool    \<comment> \<open>\<^verbatim>\<open>open\<close> and whether it gave a descriptor\<close>
  | Open_NULL "oflag set"           \<comment> \<open>\<^verbatim>\<open>open\<close> with \<^verbatim>\<open>NULL\<close> for the path; it fails\<close>
  | Fflush fd
  | Execvp string "string list"
  | Perror string
  | Kill int int
  | Waitpid int
  | Unlink string
  | Opendir string
  | Closedir
  | Printf message

text \<open>
  The environment of one process: the constant \<^verbatim>\<open>MAX_ARGS\<close> of \<^verbatim>\<open>shellParser.h\<close>
  (a parameter, the header is not part of the sources), and the answers of the operating system
  that the code cannot determine itself. The \<open>k\<close>-th call of \<^verbatim>\<open>fork\<close> and of
  \<^verbatim>\<open>pipe\<close> made along the control path that the model follows gets the \<open>k\<close>-th answer.
\<close>

record env =
  MAX_ARGS :: nat
  fork_result :: "nat \<Rightarrow> int"
  pipe_result :: "nat \<Rightarrow> bool"
  exec_ok :: "string \<Rightarrow> bool"
  access_ok :: "string \<Rightarrow> oflag set \<Rightarrow> bool"
  unlink_ok :: "string \<Rightarrow> bool"
  dup2_ok :: "fd \<Rightarrow> fd \<Rightarrow> bool"
  wait_status :: "int \<Rightarrow> int"
  dirs :: "string \<Rightarrow> string list option"

text \<open>
  The state of one process and of the file system it sees: the global \<^verbatim>\<open>childPid\<close>, the
  files by name with their contents, the numbers of \<^verbatim>\<open>fork\<close> and \<^verbatim>\<open>pipe\<close> calls made
  so far, and the calls made so far.
\<close>

record state =
  childPid :: int
  files :: "string \<rightharpoonup> string"
  forks :: nat
  pipes :: nat
  trace :: "event list"

definition emit :: "event list \<Rightarrow> state \<Rightarrow> state" where
  "emit evs s = s\<lparr>trace := trace s @ evs\<rparr>"

definition line_at :: "string list \<Rightarrow> nat \<Rightarrow> cstr option" where
  "line_at line i =
     (if i < length line then Some (Some (line ! i))
      else if i = length line then Some None
      else None)"

section \<open>isSpecial and parseArgs\<close>

definition isSpecial :: "string \<Rightarrow> bool" where
  "isSpecial token \<longleftrightarrow>
     (length token = 1 \<and> token ! 0 \<in> set ''<>|'') \<or>
     (length token = 2 \<and> token ! 1 \<in> set ''>'')"

text \<open>
  The loop of \<^verbatim>\<open>parseArgs\<close>: \<open>i\<close> is the next index of \<^verbatim>\<open>args\<close>, \<open>acc\<close> holds
  \<^verbatim>\<open>args[0..i-1]\<close>. The C code checks no capacity; a write at an index from \<open>cap\<close> on is
  outside the array.
\<close>

function parseArgs_loop ::
  "nat \<Rightarrow> string list \<Rightarrow> nat \<Rightarrow> nat \<Rightarrow> string list \<Rightarrow> fault + (string list \<times> nat)" where
  "parseArgs_loop cap line lineIndex i acc =
     (case line_at line lineIndex of
        None \<Rightarrow> Inl (ReadPastSentinel lineIndex)
      | Some None \<Rightarrow> (if i < cap then Inr (acc, lineIndex) else Inl (WritePastArgs i))
      | Some (Some token) \<Rightarrow>
          if isSpecial token
          then (if i < cap then Inr (acc, lineIndex) else Inl (WritePastArgs i))
          else if i < cap
               then parseArgs_loop cap line (Suc lineIndex) (Suc i) (acc @ [token])
               else Inl (WritePastArgs i))"
  by pat_completeness auto
termination
  by (relation "measure (\<lambda>(cap, line, lineIndex, i, acc). length line - lineIndex)")
     (auto simp: line_at_def split: if_splits)

definition parseArgs :: "nat \<Rightarrow> string list \<Rightarrow> nat \<Rightarrow> fault + (string list \<times> nat)" where
  "parseArgs cap line lineIndex = parseArgs_loop cap line lineIndex 0 []"

section \<open>The interrupt handler\<close>

definition signalHandler :: "int \<Rightarrow> state \<Rightarrow> state" where
  "signalHandler signo s =
     (if childPid s > 0 then emit [Kill (childPid s) signo] s
      else if childPid s < 0 then emit [Perror ''fork''] s
      else s)"

section \<open>The system calls the shell relies on\<close>

text \<open>
  \<^verbatim>\<open>open\<close>: an existing file is opened when access is permitted, and emptied under
  \<^verbatim>\<open>O_TRUNC\<close>; a missing file is created, empty, only under \<^verbatim>\<open>O_CREAT\<close>; in every other
  case the call fails and changes nothing. With \<^verbatim>\<open>NULL\<close> for the path the system call
  fails (\<^verbatim>\<open>EFAULT\<close>), like any other failed \<^verbatim>\<open>open\<close>.
\<close>

definition sys_open :: "env \<Rightarrow> cstr \<Rightarrow> oflag set \<Rightarrow> state \<Rightarrow> fd option \<times> state" where
  "sys_open e pathname flags s =
     (case pathname of
        None \<Rightarrow> (None, emit [Open_NULL flags] s)
      | Some name \<Rightarrow>
          (case files s name of
             Some content \<Rightarrow>
               if access_ok e name flags
               then (Some (FileFd name),
                     emit [Open name flags True]
                       (s\<lparr>files := (files s)(name \<mapsto> (if O_TRUNC \<in> flags then [] else content))\<rparr>))
               else (None, emit [Open name flags False] s)
           | None \<Rightarrow>
               if O_CREAT \<in> flags \<and> access_ok e name flags
               then (Some (FileFd name),
                     emit [Open name flags True] (s\<lparr>files := (files s)(name \<mapsto> [])\<rparr>))
               else (None, emit [Open name flags False] s)))"

definition sys_dup2 :: "env \<Rightarrow> fd \<Rightarrow> fd \<Rightarrow> state \<Rightarrow> bool \<times> state" where
  "sys_dup2 e oldfd newfd s = (dup2_ok e oldfd newfd, emit [Dup2 oldfd newfd] s)"

definition sys_unlink :: "env \<Rightarrow> string \<Rightarrow> state \<Rightarrow> state" where
  "sys_unlink e name s =
     emit [Unlink name] (if unlink_ok e name then s\<lparr>files := (files s)(name := None)\<rparr> else s)"

text \<open>
  \<^verbatim>\<open>execvp\<close> returns only when it fails, and then \<open>-1\<close>; on success the process runs the
  program named by \<open>file\<close> with the argument vector \<open>argv\<close>.
\<close>

definition sys_execvp :: "env \<Rightarrow> cstr \<Rightarrow> string list \<Rightarrow> state \<Rightarrow> int outcome \<times> state" where
  "sys_execvp e file argv s =
     (case file of
        None \<Rightarrow> (Stop (Faulted NullArgument), s)
      | Some f \<Rightarrow>
          if exec_ok e f then (Stop (Replaced f argv), emit [Execvp f argv] s)
          else (Ret (- 1), emit [Execvp f argv] s))"

section \<open>forkWrapper and pipeWrapper\<close>

definition forkWrapper :: "env \<Rightarrow> state \<Rightarrow> int outcome \<times> state" where
  "forkWrapper e s =
     (let pid = fork_result e (forks s);
          s1 = emit [Fork pid] (s\<lparr>forks := Suc (forks s)\<rparr>)
      in if pid < 0 then (Stop (Exited 2), emit [Perror ''fork''] s1)
         else (Ret pid, s1))"

text \<open>The pair returned stands for \<^verbatim>\<open>pipefds[0]\<close> and \<^verbatim>\<open>pipefds[1]\<close>.\<close>

definition pipeWrapper :: "env \<Rightarrow> state \<Rightarrow> (fd \<times> fd) outcome \<times> state" where
  "pipeWrapper e s =
     (let created = pipe_result e (pipes s);
          s1 = emit [Pipe (pipes s) created] (s\<lparr>pipes := Suc (pipes s)\<rparr>)
      in if \<not> created then (Stop (Exited 0), emit [Perror ''Pipe_Error!''] s1)
         else (Ret (PipeRead (pipes s), PipeWrite (pipes s)), s1))"

section \<open>The redirections\<close>

definition doAppendRedirection :: "env \<Rightarrow> cstr \<Rightarrow> state \<Rightarrow> unit outcome \<times> state" where
  "doAppendRedirection e filename s =
     (case sys_open e filename {O_RDWR, O_APPEND} s of
        (None, s1) \<Rightarrow> (Stop (Exited 1), emit [Perror ''Error opening file''] s1)
      | (Some stdOutFile, s1) \<Rightarrow>
          (case sys_dup2 e stdOutFile Stdout s1 of
             (False, s2) \<Rightarrow>
               (Stop (Exited 1), emit [Perror ''can't redirect standard out for append''] s2)
           | (True, s2) \<Rightarrow> (Ret (), emit [Fflush Stdout, Close stdOutFile] s2)))"

definition doStdoutRedirection :: "env \<Rightarrow> cstr \<Rightarrow> state \<Rightarrow> unit outcome \<times> state" where
  "doStdoutRedirection e filename s =
     (case sys_open e filename {O_TRUNC, O_WRONLY, O_CREAT} s of
        (None, s1) \<Rightarrow> (Stop (Exited 1), emit [Perror ''Error opening file''] s1)
      | (Some stdOutFile, s1) \<Rightarrow>
          (case sys_dup2 e stdOutFile Stdout s1 of
             (False, s2) \<Rightarrow> (Stop (Exited 1), emit [Perror ''can't redirect standard out''] s2)
           | (True, s2) \<Rightarrow> (Ret (), emit [Fflush Stdout, Close stdOutFile] s2)))"

definition doStderrRedirection :: "env \<Rightarrow> cstr \<Rightarrow> state \<Rightarrow> unit outcome \<times> state" where
  "doStderrRedirection e filename s =
     (case sys_open e filename {O_TRUNC, O_WRONLY, O_CREAT} s of
        (None, s1) \<Rightarrow> (Stop (Exited 1), emit [Perror ''Error opening file''] s1)
      | (Some stdErrFile, s1) \<Rightarrow>
          (case sys_dup2 e stdErrFile Stderr s1 of
             (False, s2) \<Rightarrow> (Stop (Exited 1), emit [Perror ''can't redirect standard error''] s2)
           | (True, s2) \<Rightarrow> (Ret (), emit [Fflush Stderr, Close stdErrFile] s2)))"

definition doStdoutStderrRedirection :: "env \<Rightarrow> cstr \<Rightarrow> state \<Rightarrow> unit outcome \<times> state" where
  "doStdoutStderrRedirection e filename s =
     (case sys_open e filename {O_TRUNC, O_WRONLY, O_CREAT} s of
        (None, s1) \<Rightarrow> (Stop (Exited 1), emit [Perror ''Error opening file''] s1)
      | (Some stdOutErrFile, s1) \<Rightarrow>
          (case sys_dup2 e stdOutErrFile Stdout s1 of
             (False, s2) \<Rightarrow> (Stop (Exited 1), emit [Perror ''can't redirect standard out''] s2)
           | (True, s2) \<Rightarrow>
               (case sys_dup2 e stdOutErrFile Stderr s2 of
                  (False, s3) \<Rightarrow>
                    (Stop (Exited 1), emit [Perror ''can't redirect standard error''] s3)
                | (True, s3) \<Rightarrow>
                    (Ret (), emit [Fflush Stdout, Fflush Stderr, Close stdOutErrFile] s3))))"

definition doStdinRedirection :: "env \<Rightarrow> cstr \<Rightarrow> state \<Rightarrow> unit outcome \<times> state" where
  "doStdinRedirection e filename s =
     (case sys_open e filename {O_RDONLY} s of
        (None, s1) \<Rightarrow> (Stop (Exited 1), emit [Perror ''Error opening file''] s1)
      | (Some stdInFile, s1) \<Rightarrow>
          (case sys_dup2 e stdInFile Stdin s1 of
             (False, s2) \<Rightarrow> (Stop (Exited 1), emit [Perror ''can't redirect standard in''] s2)
           | (True, s2) \<Rightarrow> (Ret (), emit [Fflush Stdin, Close stdInFile] s2)))"

section \<open>continueProcessingLine and doPipe\<close>

text \<open>
  The redirection that \<^verbatim>\<open>continueProcessingLine\<close> applies for a token, in the order of its
  \<^verbatim>\<open>strcmp\<close> tests. The five branches differ in nothing else.
\<close>

definition redirection_of :: "string \<Rightarrow> (env \<Rightarrow> cstr \<Rightarrow> state \<Rightarrow> unit outcome \<times> state) option" where
  "redirection_of token =
     (if token = ''>>'' then Some doAppendRedirection
      else if token = ''2>'' then Some doStderrRedirection
      else if token = ''&>'' then Some doStdoutStderrRedirection
      else if token = ''>'' then Some doStdoutRedirection
      else if token = ''<'' then Some doStdinRedirection
      else None)"

text \<open>
  Both functions get the cursor \<^verbatim>\<open>*lineIndex\<close> at entry and return, with the outcome and the
  state, every value the cursor takes during the call, in order and starting with the value at
  entry; the last one is the value the caller finds in \<^verbatim>\<open>*lineIndex\<close>.
\<close>

function continueProcessingLine ::
    "env \<Rightarrow> string list \<Rightarrow> nat \<Rightarrow> string list \<Rightarrow> state \<Rightarrow> unit outcome \<times> nat list \<times> state"
  and doPipe ::
    "env \<Rightarrow> string list \<Rightarrow> string list \<Rightarrow> nat \<Rightarrow> state \<Rightarrow> unit outcome \<times> nat list \<times> state"
where
  "continueProcessingLine e line lineIndex args s =
     (case line_at line lineIndex of
        None \<Rightarrow> (Stop (Faulted (ReadPastSentinel lineIndex)), [lineIndex], s)
      | Some None \<Rightarrow>
          (case line_at line 0 of
             None \<Rightarrow> (Stop (Faulted (ReadPastSentinel 0)), [lineIndex], s)
           | Some file \<Rightarrow>
               (case sys_execvp e file args s of
                  (Stop t, s1) \<Rightarrow> (Stop t, [lineIndex], s1)
                | (Ret r, s1) \<Rightarrow>
                    if r < 0 then (Stop (Exited 1), [lineIndex], emit [Perror ''EXEC failed''] s1)
                    else (Ret (), [lineIndex], s1)))
      | Some (Some token) \<Rightarrow>
          (case redirection_of token of
             Some redirect \<Rightarrow>
               (case line_at line (Suc lineIndex) of
                  None \<Rightarrow> (Stop (Faulted (ReadPastSentinel (Suc lineIndex))), [lineIndex, Suc lineIndex], s)
                | Some filename \<Rightarrow>
                    (case redirect e filename s of
                       (Stop t, s1) \<Rightarrow> (Stop t, [lineIndex, Suc lineIndex], s1)
                     | (Ret u, s1) \<Rightarrow>
                         (case continueProcessingLine e line (Suc (Suc lineIndex)) args s1 of
                            (r, path, s2) \<Rightarrow> (r, lineIndex # Suc lineIndex # path, s2))))
           | None \<Rightarrow>
               if token = ''|''
               then (case doPipe e args line (Suc lineIndex) s of
                       (r, path, s1) \<Rightarrow> (r, lineIndex # path, s1))
               else (Ret (), [lineIndex], s)))"
| "doPipe e p1Args line lineIndex s =
     (case pipeWrapper e s of
        (Stop t, s1) \<Rightarrow> (Stop t, [lineIndex], s1)
      | (Ret (rd, wr), s1) \<Rightarrow>
          (case forkWrapper e s1 of
             (Stop t, s2) \<Rightarrow> (Stop t, [lineIndex], s2)
           | (Ret pid, s2) \<Rightarrow>
               if pid = 0
               then (let s3 = emit [Close rd] (snd (sys_dup2 e wr Stdout s2))
                     in case line_at line 0 of
                          None \<Rightarrow> (Stop (Faulted (ReadPastSentinel 0)), [lineIndex], s3)
                        | Some file \<Rightarrow>
                            (case sys_execvp e file p1Args s3 of
                               (Stop t, s4) \<Rightarrow> (Stop t, [lineIndex], s4)
                             | (Ret r, s4) \<Rightarrow> (Ret (), [lineIndex], s4)))
               else (let s3 = emit [Close wr] (snd (sys_dup2 e rd Stdin s2))
                     in case line_at line 2 of
                          None \<Rightarrow> (Stop (Faulted (ReadPastSentinel 2)), [lineIndex], s3)
                        | Some file \<Rightarrow>
                            (case sys_execvp e file p1Args s3 of
                               (Stop t, s4) \<Rightarrow> (Stop t, [lineIndex], s4)
                             | (Ret r, s4) \<Rightarrow>
                                 (case parseArgs (MAX_ARGS e) line lineIndex of
                                    Inl f \<Rightarrow> (Stop (Faulted f), [lineIndex], s4)
                                  | Inr (args, lineIndex') \<Rightarrow>
                                      (case continueProcessingLine e line lineIndex' args s4 of
                                         (r, path, s5) \<Rightarrow>
                                           (r, [lineIndex..<lineIndex'] @ path, s5)))))))"
  by pat_completeness auto

termination
proof (relation "measure (\<lambda>c. case c of
          Inl (e, line, lineIndex, args, s) \<Rightarrow> 2 * (length line + 2 - lineIndex)
        | Inr (e, p1Args, line, lineIndex, s) \<Rightarrow> 2 * (length line + 2 - lineIndex) + 1)",
       goal_cases)
  case 1
  show ?case by simp
next
  case 2
  then show ?case by (simp add: line_at_def split: if_splits)
next
  case 3
  then show ?case by (simp add: line_at_def split: if_splits)
next
  case 4
  have mono: "parseArgs_loop cap ln i k acc = Inr b \<Longrightarrow> i \<le> snd b" for cap ln i k acc b
  proof (induction cap ln i k acc rule: parseArgs_loop.induct)
    case (1 cap ln i k acc)
    from "1.prems" "1.IH" show ?case
      by (subst (asm) parseArgs_loop.simps)
         (auto split: option.splits if_splits)
  qed
  note m = mono [OF 4(11) [unfolded parseArgs_def]]
  from m 4(12) [symmetric] show ?case by simp
qed

declare parseArgs_loop.simps [simp del]
declare continueProcessingLine.simps [simp del]
declare doPipe.simps [simp del]

section \<open>The built-in commands\<close>

text \<open>
  The argument vector \<^verbatim>\<open>args\<close> is modelled by the list of its entries before the
  terminating \<^verbatim>\<open>NULL\<close>. A directory stream is the list of the names still to be read, or
  \<open>None\<close> for the \<^verbatim>\<open>NULL\<close> that \<^verbatim>\<open>opendir\<close> returns on failure.
\<close>

primrec lsHelper_loop :: "string list \<Rightarrow> state \<Rightarrow> state" where
  "lsHelper_loop [] s = s"
| "lsHelper_loop (d_name # rest) s =
     lsHelper_loop rest
       (if (case d_name of [] \<Rightarrow> True | c # cs \<Rightarrow> c \<noteq> CHR ''.'')
        then emit [Printf (Entry d_name)] s else s)"

definition lsHelper :: "string list option \<Rightarrow> state \<Rightarrow> unit outcome \<times> state" where
  "lsHelper dp s =
     (case dp of
        None \<Rightarrow> (Stop (Faulted NullArgument), emit [Printf Newline] s)
      | Some names \<Rightarrow> (Ret (), emit [Printf Newline] (lsHelper_loop names (emit [Printf Newline] s))))"

primrec doLs_loop :: "env \<Rightarrow> bool \<Rightarrow> string list \<Rightarrow> state \<Rightarrow> unit outcome \<times> state" where
  "doLs_loop e several [] s = (Ret (), s)"
| "doLs_loop e several (dir # rest) s =
     (case dirs e dir of
        Some names \<Rightarrow>
          (case lsHelper (Some names)
                  (if several then emit [Opendir dir, Printf (DirHeader dir)] s
                   else emit [Opendir dir] s) of
             (Stop t, s1) \<Rightarrow> (Stop t, s1)
           | (Ret u, s1) \<Rightarrow> doLs_loop e several rest (emit [Closedir] s1))
      | None \<Rightarrow> doLs_loop e several rest (emit [Opendir dir, Printf (CannotOpenDir dir)] s))"

definition doLs :: "env \<Rightarrow> string list \<Rightarrow> state \<Rightarrow> unit outcome \<times> state" where
  "doLs e args s =
     (case args of
        [] \<Rightarrow> (Stop (Faulted (ReadPastTerminator 1)), s)
      | arg0 # rest \<Rightarrow>
          if rest = []
          then (case lsHelper (dirs e ''./'') (emit [Opendir ''./''] s) of
                  (Stop t, s1) \<Rightarrow> (Stop t, s1)
                | (Ret u, s1) \<Rightarrow> (Ret (), emit [Closedir] s1))
          else doLs_loop e (2 < length args) rest s)"

primrec doRm_loop :: "env \<Rightarrow> string list \<Rightarrow> state \<Rightarrow> state" where
  "doRm_loop e [] s = s"
| "doRm_loop e (name # rest) s =
     (case sys_open e (Some name) {O_RDONLY} s of
        (None, s1) \<Rightarrow> doRm_loop e rest (emit [Printf (CannotRemove name)] s1)
      | (Some fd, s1) \<Rightarrow> doRm_loop e rest (emit [Close fd] (sys_unlink e name s1)))"

definition doRm :: "env \<Rightarrow> string list \<Rightarrow> state \<Rightarrow> unit outcome \<times> state" where
  "doRm e args s =
     (case args of
        [] \<Rightarrow> (Stop (Faulted (ReadPastTerminator 1)), s)
      | arg0 # rest \<Rightarrow>
          if rest = [] then (Ret (), emit [Printf NeedFileName] s)
          else (Ret (), doRm_loop e rest s))"

section \<open>main\<close>

text \<open>
  One turn of the loop of \<^verbatim>\<open>main\<close> on the line read, from \<^verbatim>\<open>int lineIndex = 0\<close> to
  the end of the loop body. With the outcome it returns the values the cursor took.
\<close>

definition main_body :: "env \<Rightarrow> string list \<Rightarrow> state \<Rightarrow> unit outcome \<times> nat list \<times> state" where
  "main_body e line s =
     (case line_at line 0 of
        None \<Rightarrow> (Stop (Faulted (ReadPastSentinel 0)), [0], s)
      | Some None \<Rightarrow> (Ret (), [0], s)
      | Some (Some token) \<Rightarrow>
          (case parseArgs (MAX_ARGS e) line 0 of
             Inl f \<Rightarrow> (Stop (Faulted f), [0], s)
           | Inr (args, lineIndex) \<Rightarrow>
               (case args of
                  [] \<Rightarrow> (Stop (Faulted NullArgument), [0..<Suc lineIndex], s)
                | arg0 # rest \<Rightarrow>
                    if arg0 = ''ls''
                    then (case doLs e args s of (r, s1) \<Rightarrow> (r, [0..<Suc lineIndex], s1))
                    else if arg0 = ''rm''
                    then (case doRm e args s of (r, s1) \<Rightarrow> (r, [0..<Suc lineIndex], s1))
                    else
                      (case forkWrapper e s of
                         (Stop t, s1) \<Rightarrow> (Stop t, [0..<Suc lineIndex], s1)
                       | (Ret pid, s1) \<Rightarrow>
                           if pid = 0
                           then (case continueProcessingLine e line lineIndex args
                                        (s1\<lparr>childPid := pid\<rparr>) of
                                   (r, path, s2) \<Rightarrow> (r, [0..<lineIndex] @ path, s2))
                           else (Ret (), [0..<Suc lineIndex],
                                 emit [Waitpid pid, Printf (ChildExited pid (wait_status e pid))]
                                   (s1\<lparr>childPid := pid\<rparr>))))))"



section \<open>Sample environments and properties of traces\<close>

text \<open>
  An environment for the examples: 1024 entries in \<^verbatim>\<open>args\<close>, four programs that can be run,
  every access permitted, no directory. The answers of \<^verbatim>\<open>fork\<close> and \<^verbatim>\<open>pipe\<close> are given
  with each example. The sample state is that of a shell that has not forked yet.
\<close>

definition demo_env :: "(nat \<Rightarrow> int) \<Rightarrow> (nat \<Rightarrow> bool) \<Rightarrow> env" where
  "demo_env fork_answers pipe_answers =
     \<lparr>MAX_ARGS = 1024,
      fork_result = fork_answers,
      pipe_result = pipe_answers,
      exec_ok = (\<lambda>file. file = ''/bin/ls'' \<or> file = ''/bin/wc'' \<or> file = ''/bin/cat'' \<or> file = ''/bin/true''),
      access_ok = (\<lambda>name flags. True),
      unlink_ok = (\<lambda>name. True),
      dup2_ok = (\<lambda>oldfd newfd. True),
      wait_status = (\<lambda>pid. 0),
      dirs = (\<lambda>name. None)\<rparr>"

definition demo_state :: "(string \<rightharpoonup> string) \<Rightarrow> state" where
  "demo_state fs = \<lparr>childPid = 0, files = fs, forks = 0, pipes = 0, trace = []\<rparr>"

text \<open>In a run of events, every \<^verbatim>\<open>unlink\<close> comes right after a successful read-only
  \<^verbatim>\<open>open\<close> of the same name.\<close>

abbreviation unlink_follows_open :: "event list \<Rightarrow> bool" where
  "unlink_follows_open evs \<equiv>
     \<forall>before after name. evs = before @ Unlink name # after \<longrightarrow>
        (\<exists>earlier. before = earlier @ [Open name {O_RDONLY} True])"

text \<open>
  The values a cursor took, from \<open>i\<close> on: there is at least the value at entry, the values
  increase strictly, and none lies beyond the sentinel of the line. A run from \<open>i\<close> is in order
  when its cursor values are, and when it ended neither in a read beyond the sentinel nor in a
  write behind the argument array.
\<close>

definition cursor_ok :: "string list \<Rightarrow> nat \<Rightarrow> nat list \<Rightarrow> bool" where
  "cursor_ok line i path \<longleftrightarrow>
     path \<noteq> [] \<and> hd path = i \<and> sorted_wrt (<) path \<and> (\<forall>c \<in> set path. c \<le> length line)"

definition run_ok :: "string list \<Rightarrow> nat \<Rightarrow> unit outcome \<times> nat list \<times> state \<Rightarrow> bool" where
  "run_ok line i res \<longleftrightarrow>
     (case res of (r, path, s') \<Rightarrow>
        cursor_ok line i path \<and>
        (\<forall>k. r \<noteq> Stop (Faulted (ReadPastSentinel k))) \<and>
        (\<forall>k. r \<noteq> Stop (Faulted (WritePastArgs k))))"

section \<open>What parseArgs computes\<close>

lemma line_at_simps:
  "i < length line \<Longrightarrow> line_at line i = Some (Some (line ! i))"
  "line_at line (length line) = Some None"
  "length line < i \<Longrightarrow> line_at line i = None"
  by (simp_all add: line_at_def)

lemma parseArgs_loop_run:
  "lineIndex \<le> length line \<Longrightarrow>
   parseArgs_loop cap line lineIndex i acc =
     (let run = takeWhile (\<lambda>t. \<not> isSpecial t) (drop lineIndex line)
      in if i + length run < cap then Inr (acc @ run, lineIndex + length run)
         else Inl (WritePastArgs (max i cap)))"
proof (induction cap line lineIndex i acc rule: parseArgs_loop.induct)
  case (1 cap line lineIndex i acc)
  show ?case
  proof (cases "lineIndex < length line")
    case False
    with "1.prems" have "lineIndex = length line" by simp
    then show ?thesis
      by (subst parseArgs_loop.simps) (simp add: line_at_simps max_def)
  next
    case True
    then have d: "drop lineIndex line = line ! lineIndex # drop (Suc lineIndex) line"
      by (simp add: Cons_nth_drop_Suc)
    show ?thesis
    proof (cases "isSpecial (line ! lineIndex)")
      case True
      with \<open>lineIndex < length line\<close> d show ?thesis
        by (subst parseArgs_loop.simps) (simp add: line_at_simps max_def)
    next
      case False
      show ?thesis
      proof (cases "i < cap")
        case True
        from \<open>lineIndex < length line\<close> have "Suc lineIndex \<le> length line" by simp
        note IH = "1.IH" [OF line_at_simps(1) [OF \<open>lineIndex < length line\<close>] refl False True this]
        from \<open>lineIndex < length line\<close> False True d show ?thesis
          by (subst parseArgs_loop.simps) (simp add: line_at_simps IH Let_def max_def)
      next
        case nt: False
        from \<open>lineIndex < length line\<close> False nt d show ?thesis
          by (subst parseArgs_loop.simps) (simp add: line_at_simps Let_def max_def)
      qed
    qed
  qed
qed

lemma parseArgs_run:
  "lineIndex \<le> length line \<Longrightarrow>
   parseArgs cap line lineIndex =
     (if length (takeWhile (\<lambda>t. \<not> isSpecial t) (drop lineIndex line)) < cap
      then Inr (takeWhile (\<lambda>t. \<not> isSpecial t) (drop lineIndex line),
                lineIndex + length (takeWhile (\<lambda>t. \<not> isSpecial t) (drop lineIndex line)))
      else Inl (WritePastArgs cap))"
  by (simp add: parseArgs_def parseArgs_loop_run Let_def)

lemma parseArgs_overflow:
  assumes "lineIndex \<le> length line"
    and "cap \<le> length (takeWhile (\<lambda>t. \<not> isSpecial t) (drop lineIndex line))"
  shows "parseArgs cap line lineIndex = Inl (WritePastArgs cap)"
  using assms by (simp add: parseArgs_run)

lemma isSpecial_iff:
  "isSpecial t \<longleftrightarrow>
     (\<exists>c. t = [c] \<and> (c = CHR ''<'' \<or> c = CHR ''>'' \<or> c = CHR ''|'')) \<or> (\<exists>c. t = [c, CHR ''>''])"
proof (cases t)
  case Nil
  then show ?thesis by (simp add: isSpecial_def)
next
  case (Cons a u)
  then show ?thesis
    by (cases u; cases "tl u") (auto simp: isSpecial_def)
qed

section \<open>The interrupt handler as a state machine\<close>

text \<open>
  Claim C4. For every signal number and every value of \<^verbatim>\<open>childPid\<close>, the handler does one of
  three things. With a positive \<^verbatim>\<open>childPid\<close> it makes exactly one call, \<^verbatim>\<open>kill\<close> with that
  process id and the signal number it received. With a negative \<^verbatim>\<open>childPid\<close> it makes exactly
  one call, \<^verbatim>\<open>perror("fork")\<close>. With \<^verbatim>\<open>childPid\<close> equal to zero it does nothing. Nothing
  but the trace changes.
\<close>

theorem signalHandler_three_states:
  "(0 < childPid s \<longrightarrow> signalHandler signo s = s\<lparr>trace := trace s @ [Kill (childPid s) signo]\<rparr>) \<and>
   (childPid s < 0 \<longrightarrow> signalHandler signo s = s\<lparr>trace := trace s @ [Perror ''fork'']\<rparr>) \<and>
   (childPid s = 0 \<longrightarrow> signalHandler signo s = s)"
  by (simp add: signalHandler_def emit_def)

text \<open>The three cases at the states with \<^verbatim>\<open>childPid\<close> 4242, -1 and 0, for \<^verbatim>\<open>SIGINT\<close> (2).\<close>

theorem signalHandler_three_states_witness:
  "signalHandler 2 \<lparr>childPid = 4242, files = Map.empty, forks = 1, pipes = 0, trace = []\<rparr>
     = \<lparr>childPid = 4242, files = Map.empty, forks = 1, pipes = 0, trace = [Kill 4242 2]\<rparr> \<and>
   signalHandler 2 \<lparr>childPid = - 1, files = Map.empty, forks = 1, pipes = 0, trace = []\<rparr>
     = \<lparr>childPid = - 1, files = Map.empty, forks = 1, pipes = 0, trace = [Perror ''fork'']\<rparr> \<and>
   signalHandler 2 \<lparr>childPid = 0, files = Map.empty, forks = 0, pipes = 0, trace = []\<rparr>
     = \<lparr>childPid = 0, files = Map.empty, forks = 0, pipes = 0, trace = []\<rparr>"
  using signalHandler_three_states
          [of "\<lparr>childPid = 4242, files = Map.empty, forks = 1, pipes = 0, trace = []\<rparr>" 2]
        signalHandler_three_states
          [of "\<lparr>childPid = - 1, files = Map.empty, forks = 1, pipes = 0, trace = []\<rparr>" 2]
        signalHandler_three_states
          [of "\<lparr>childPid = 0, files = Map.empty, forks = 0, pipes = 0, trace = []\<rparr>" 2]
  by simp

section \<open>The capacity of the argument array\<close>

text \<open>
  Claim C7 says that \<^verbatim>\<open>parseArgs\<close> fails and aborts the line when the vector would exceed
  \<^verbatim>\<open>MAX_ARGS\<close> entries, so that no write lands behind the array. The loop has no such test.
  With room for four entries and a line of four plain tokens, the tokens fill
  \<^verbatim>\<open>args[0..3]\<close> and the terminator is written to \<^verbatim>\<open>args[4]\<close>. Lemma
  \<open>parseArgs_overflow\<close> shows the same for every capacity and every run of at least that
  many plain tokens.
\<close>

theorem parseArgs_overflow_counterexample:
  "parseArgs 4 [''a'', ''b'', ''c'', ''d''] 0 = Inl (WritePastArgs 4)"
  by (simp add: parseArgs_run isSpecial_def)

text \<open>
  Claim C7, amended. \<^verbatim>\<open>parseArgs\<close> has no failure path. From a cursor inside the line it
  collects the run of plain tokens up to the first operator or the sentinel; when that run has
  fewer than \<^verbatim>\<open>MAX_ARGS\<close> tokens, every write, the terminator included, stays inside the
  array, the vector is that run, and the cursor has advanced by its length.
\<close>

theorem parseArgs_within_capacity:
  assumes "lineIndex \<le> length line"
    and "length (takeWhile (\<lambda>t. \<not> isSpecial t) (drop lineIndex line)) < cap"
  shows "parseArgs cap line lineIndex =
           Inr (takeWhile (\<lambda>t. \<not> isSpecial t) (drop lineIndex line),
                lineIndex + length (takeWhile (\<lambda>t. \<not> isSpecial t) (drop lineIndex line)))"
  using assms by (simp add: parseArgs_run)

text \<open>The line \<^verbatim>\<open>/bin/ls -l | /bin/wc\<close> with room for four entries.\<close>

theorem parseArgs_within_capacity_witness:
  "parseArgs 4 [''/bin/ls'', ''-l'', ''|'', ''/bin/wc''] 0 = Inr ([''/bin/ls'', ''-l''], 2)"
  using parseArgs_within_capacity [of 0 "[''/bin/ls'', ''-l'', ''|'', ''/bin/wc'']" 4]
  by (simp add: isSpecial_def)

section \<open>Lines without operators\<close>

text \<open>
  Claim C9 promises the whole line as the argument vector for every token sequence without
  operator tokens. Two plain tokens and room for two entries: the terminator would be the
  third entry, and the write goes behind the array. No vector is produced.
\<close>

theorem parseArgs_plain_line_counterexample:
  "\<not> isSpecial ''/bin/echo'' \<and> \<not> isSpecial ''hello'' \<and>
   parseArgs 2 [''/bin/echo'', ''hello''] 0 = Inl (WritePastArgs 2)"
  by (simp add: parseArgs_run isSpecial_def)

text \<open>
  Claim C9, amended. For every token sequence that has fewer than \<^verbatim>\<open>MAX_ARGS\<close> tokens, none
  of them an operator (a token of length 1 whose character is one of \<^verbatim>\<open>< > |\<close>, or a token of
  length 2 whose second character is \<^verbatim>\<open>>\<close>), one pass of \<^verbatim>\<open>parseArgs\<close> from the start
  of the line gives the tokens of the line in order, terminated inside the array, and leaves
  the cursor on the sentinel.
\<close>

theorem parseArgs_plain_line:
  assumes "\<forall>t \<in> set line.
             \<not> ((\<exists>c. t = [c] \<and> (c = CHR ''<'' \<or> c = CHR ''>'' \<or> c = CHR ''|'')) \<or>
                (\<exists>c. t = [c, CHR ''>'']))"
    and "length line < cap"
  shows "parseArgs cap line 0 = Inr (line, length line)"
proof -
  from assms(1) have "\<forall>t \<in> set line. \<not> isSpecial t"
    by (simp add: isSpecial_iff)
  then have run: "takeWhile (\<lambda>t. \<not> isSpecial t) line = line"
    by simp
  from assms(2) show ?thesis
    by (simp add: parseArgs_run run)
qed

text \<open>The line \<^verbatim>\<open>/bin/echo hello\<close> with room for three entries.\<close>

theorem parseArgs_plain_line_witness:
  "parseArgs 3 [''/bin/echo'', ''hello''] 0 = Inr ([''/bin/echo'', ''hello''], 2)"
  using parseArgs_plain_line [of "[''/bin/echo'', ''hello'']" 3]
  by simp

section \<open>Append redirection\<close>

lemma emit_emit: "emit ys (emit xs s) = emit (xs @ ys) s"
  by (simp add: emit_def)

lemma emit_fields:
  "childPid (emit evs s) = childPid s"
  "files (emit evs s) = files s"
  "forks (emit evs s) = forks s"
  "pipes (emit evs s) = pipes s"
  "trace (emit evs s) = trace s @ evs"
  by (simp_all add: emit_def)

text \<open>
  Claim C5 says that append redirection creates a missing target. The code opens the target with
  \<^verbatim>\<open>O_RDWR | O_APPEND\<close> and without \<^verbatim>\<open>O_CREAT\<close>, although it passes the creation mode
  \<^verbatim>\<open>S_IRWXU\<close>. So for every name with no file behind it, \<^verbatim>\<open>open\<close> fails, the process
  reports \<^verbatim>\<open>Error opening file\<close> and exits with status 1, and the file still does not exist.
\<close>

theorem append_redirection_needs_existing_file:
  assumes "files s name = None"
  shows "doAppendRedirection e (Some name) s =
           (Stop (Exited 1),
            emit [Open name {O_RDWR, O_APPEND} False, Perror ''Error opening file''] s) \<and>
         files (snd (doAppendRedirection e (Some name) s)) name = None"
  using assms by (simp add: doAppendRedirection_def sys_open_def emit_emit emit_fields)

text \<open>The redirection \<^verbatim>\<open>>> /tmp/log\<close> on an empty file system.\<close>

theorem append_redirection_needs_existing_file_witness:
  "doAppendRedirection (demo_env (\<lambda>k. 0) (\<lambda>k. True)) (Some ''/tmp/log'') (demo_state Map.empty) =
     (Stop (Exited 1),
      \<lparr>childPid = 0, files = Map.empty, forks = 0, pipes = 0,
       trace = [Open ''/tmp/log'' {O_RDWR, O_APPEND} False, Perror ''Error opening file'']\<rparr>)"
  using append_redirection_needs_existing_file
          [of "demo_state Map.empty" "''/tmp/log''" "demo_env (\<lambda>k. 0) (\<lambda>k. True)"]
  by (simp add: demo_state_def emit_def)

text \<open>The sibling \<^verbatim>\<open>doStdoutRedirection\<close> passes \<^verbatim>\<open>O_CREAT\<close> and does create the file.\<close>

lemma stdout_redirection_creates_file:
  assumes "files s name = None" and "access_ok e name {O_TRUNC, O_WRONLY, O_CREAT}"
    and "dup2_ok e (FileFd name) Stdout"
  shows "\<exists>s'. doStdoutRedirection e (Some name) s = (Ret (), s') \<and> files s' name = Some []"
  using assms
  by (simp add: doStdoutRedirection_def sys_open_def sys_dup2_def emit_fields)

section \<open>The active child after the wait\<close>

text \<open>
  Claim C3 says that \<^verbatim>\<open>childPid\<close> is reset once the top-level wait has completed, so that a later
  interrupt is not forwarded to a process that is gone. \<^verbatim>\<open>main\<close> assigns \<^verbatim>\<open>childPid\<close> only
  from \<^verbatim>\<open>forkWrapper\<close>. For every line that starts a process, in the shell (where \<^verbatim>\<open>fork\<close>
  returned the child's id): the turn of the loop ends after \<^verbatim>\<open>waitpid\<close> and the report, with
  \<^verbatim>\<open>childPid\<close> still the id of the reaped child, and an interrupt handled in that state sends
  the signal to that id.
\<close>

theorem childPid_stale_after_wait:
  assumes "parseArgs (MAX_ARGS e) line 0 = Inr (arg0 # rest, lineIndex)"
    and "arg0 \<noteq> ''ls''" and "arg0 \<noteq> ''rm''"
    and "0 < fork_result e (forks s)"
  shows "\<exists>path s1. main_body e line s = (Ret (), path, s1) \<and>
           trace s1 = trace s @ [Fork (fork_result e (forks s)), Waitpid (fork_result e (forks s)),
                                 Printf (ChildExited (fork_result e (forks s))
                                           (wait_status e (fork_result e (forks s))))] \<and>
           childPid s1 = fork_result e (forks s) \<and>
           trace (signalHandler signo s1) = trace s1 @ [Kill (fork_result e (forks s)) signo]"
proof -
  have "line \<noteq> []"
  proof
    assume "line = []"
    then have "parseArgs (MAX_ARGS e) line 0 = Inr ([], 0) \<or> parseArgs (MAX_ARGS e) line 0 = Inl (WritePastArgs 0)"
      by (simp add: parseArgs_def parseArgs_loop.simps line_at_def)
    with assms(1) show False by auto
  qed
  then have l0: "line_at line 0 = Some (Some (line ! 0))"
    by (simp add: line_at_def)
  from assms show ?thesis
    by (simp add: main_body_def l0 forkWrapper_def Let_def emit_fields emit_emit signalHandler_def)
qed

text \<open>The line \<^verbatim>\<open>/bin/true\<close>, the child 4242, and then \<^verbatim>\<open>SIGINT\<close> at the prompt.\<close>

theorem childPid_stale_after_wait_witness:
  "(case main_body (demo_env (\<lambda>k. 4242) (\<lambda>k. True)) [''/bin/true''] (demo_state Map.empty) of
      (r, path, s1) \<Rightarrow>
        r = Ret () \<and> childPid s1 = 4242 \<and>
        trace s1 = [Fork 4242, Waitpid 4242, Printf (ChildExited 4242 0)] \<and>
        trace (signalHandler 2 s1) = [Fork 4242, Waitpid 4242, Printf (ChildExited 4242 0), Kill 4242 2])"
  using childPid_stale_after_wait
          [of "demo_env (\<lambda>k. 4242) (\<lambda>k. True)" "[''/bin/true'']" "''/bin/true''" "[]" 1
              "demo_state Map.empty" 2]
  by (auto simp: demo_env_def demo_state_def parseArgs_def parseArgs_loop.simps line_at_def isSpecial_def)

section \<open>The parent branch of doPipe\<close>

text \<open>
  Claim C1 says that the parent branch, after rebinding its standard input to the read end and
  closing the write end, collects the arguments of the next stage and recurses. Between the
  two the code calls \<^verbatim>\<open>execvp(line[2], p1Args)\<close>. Whenever the third token of the line names a
  program that can be run, the parent becomes that program, with the argument vector of the
  left-hand stage; \<^verbatim>\<open>parseArgs\<close> is never reached and the cursor stays where it was.
\<close>

theorem doPipe_parent_runs_third_token:
  assumes "pipe_result e (pipes s)" and "0 < fork_result e (forks s)"
    and "2 < length line" and "exec_ok e (line ! 2)"
  shows "doPipe e p1Args line lineIndex s =
           (Stop (Replaced (line ! 2) p1Args), [lineIndex],
            emit [Pipe (pipes s) True, Fork (fork_result e (forks s)),
                  Dup2 (PipeRead (pipes s)) Stdin, Close (PipeWrite (pipes s)),
                  Execvp (line ! 2) p1Args]
              (s\<lparr>pipes := Suc (pipes s), forks := Suc (forks s)\<rparr>))"
  using assms
  by (simp add: doPipe.simps pipeWrapper_def forkWrapper_def sys_dup2_def sys_execvp_def
        line_at_simps Let_def emit_def)

text \<open>
  The line \<^verbatim>\<open>/bin/ls | /bin/wc -l\<close>, with the cursor behind the pipe symbol: the right-hand
  stage runs \<^verbatim>\<open>/bin/wc\<close> with the argument vector \<^verbatim>\<open>/bin/ls\<close>, and \<^verbatim>\<open>-l\<close> is lost.
\<close>

theorem doPipe_parent_runs_third_token_witness:
  "doPipe (demo_env (\<lambda>k. 7) (\<lambda>k. True)) [''/bin/ls'']
      [''/bin/ls'', ''|'', ''/bin/wc'', ''-l''] 2 (demo_state Map.empty) =
     (Stop (Replaced ''/bin/wc'' [''/bin/ls'']), [2],
      \<lparr>childPid = 0, files = Map.empty, forks = 1, pipes = 1,
       trace = [Pipe 0 True, Fork 7, Dup2 (PipeRead 0) Stdin, Close (PipeWrite 0),
                Execvp ''/bin/wc'' [''/bin/ls'']]\<rparr>)"
  using doPipe_parent_runs_third_token
          [of "demo_env (\<lambda>k. 7) (\<lambda>k. True)" "demo_state Map.empty"
              "[''/bin/ls'', ''|'', ''/bin/wc'', ''-l'']" "[''/bin/ls'']" 2]
  by (simp add: demo_env_def demo_state_def emit_def)

text \<open>Only when that \<^verbatim>\<open>execvp\<close> fails does the parent go on as the comments in the code say.\<close>

lemma doPipe_parent_when_exec_fails:
  assumes "pipe_result e (pipes s)" and "0 < fork_result e (forks s)"
    and "2 < length line" and "\<not> exec_ok e (line ! 2)"
    and "parseArgs (MAX_ARGS e) line lineIndex = Inr (args, lineIndex')"
  shows "doPipe e p1Args line lineIndex s =
           (case continueProcessingLine e line lineIndex' args
                   (emit [Pipe (pipes s) True, Fork (fork_result e (forks s)),
                          Dup2 (PipeRead (pipes s)) Stdin, Close (PipeWrite (pipes s)),
                          Execvp (line ! 2) p1Args]
                      (s\<lparr>pipes := Suc (pipes s), forks := Suc (forks s)\<rparr>)) of
              (r, path, s') \<Rightarrow> (r, [lineIndex..<lineIndex'] @ path, s'))"
  using assms
  by (simp add: doPipe.simps pipeWrapper_def forkWrapper_def sys_dup2_def sys_execvp_def
        line_at_simps Let_def emit_def)

section \<open>The terminal case of continueProcessingLine\<close>

text \<open>
  Claim C2 says that at the end of the line the process becomes the program named by the head of
  its argument vector. The code calls \<^verbatim>\<open>execvp(line[0], args)\<close>: on every non-empty line whose
  first token can be run, the process becomes the program named by the first token of the
  line, whatever the argument vector holds.
\<close>

theorem terminal_case_runs_first_token:
  assumes "line \<noteq> []" and "exec_ok e (hd line)"
  shows "continueProcessingLine e line (length line) args s =
           (Stop (Replaced (hd line) args), [length line], emit [Execvp (hd line) args] s)"
  using assms
  by (cases line)
     (simp_all add: continueProcessingLine.simps line_at_def sys_execvp_def)

text \<open>
  The last stage of \<^verbatim>\<open>/bin/ls -l | /bin/wc\<close>: the argument vector is \<^verbatim>\<open>/bin/wc\<close>, the
  program run is \<^verbatim>\<open>/bin/ls\<close>.
\<close>

theorem terminal_case_runs_first_token_witness:
  "continueProcessingLine (demo_env (\<lambda>k. 7) (\<lambda>k. True))
      [''/bin/ls'', ''-l'', ''|'', ''/bin/wc''] 4 [''/bin/wc''] (demo_state Map.empty) =
     (Stop (Replaced ''/bin/ls'' [''/bin/wc'']), [4],
      \<lparr>childPid = 0, files = Map.empty, forks = 0, pipes = 0,
       trace = [Execvp ''/bin/ls'' [''/bin/wc'']]\<rparr>)"
proof -
  have len: "length [''/bin/ls'', ''-l'', ''|'', ''/bin/wc''] = 4"
    by simp
  show ?thesis
    using terminal_case_runs_first_token
            [of "[''/bin/ls'', ''-l'', ''|'', ''/bin/wc'']" "demo_env (\<lambda>k. 7) (\<lambda>k. True)"
                "[''/bin/wc'']" "demo_state Map.empty", unfolded len]
    by (simp add: demo_env_def demo_state_def emit_def)
qed

text \<open>When the replacement fails, the terminal case reports it and exits with status 1.\<close>

lemma terminal_case_exec_failure:
  assumes "line \<noteq> []" and "\<not> exec_ok e (hd line)"
  shows "continueProcessingLine e line (length line) args s =
           (Stop (Exited 1), [length line],
            emit [Execvp (hd line) args, Perror ''EXEC failed''] s)"
  using assms
  by (cases line)
     (simp_all add: continueProcessingLine.simps line_at_def sys_execvp_def emit_emit)

text \<open>
  That state is reached from \<^verbatim>\<open>main\<close>. The process followed is the child of the shell (the
  first \<^verbatim>\<open>fork\<close> returns 0) and then the parent in \<^verbatim>\<open>doPipe\<close> (the second returns 7);
  no program is called \<^verbatim>\<open>|\<close>, so \<^verbatim>\<open>execvp(line[2], p1Args)\<close> fails.
\<close>

lemma right_stage_runs_left_program:
  "main_body (demo_env (\<lambda>k. if k = 0 then 0 else 7) (\<lambda>k. True))
      [''/bin/ls'', ''-l'', ''|'', ''/bin/wc''] (demo_state Map.empty) =
     (Stop (Replaced ''/bin/ls'' [''/bin/wc'']), [0, 1, 2, 3, 4],
      \<lparr>childPid = 0, files = Map.empty, forks = 2, pipes = 1,
       trace = [Fork 0, Pipe 0 True, Fork 7, Dup2 (PipeRead 0) Stdin, Close (PipeWrite 0),
                Execvp ''|'' [''/bin/ls'', ''-l''], Execvp ''/bin/ls'' [''/bin/wc'']]\<rparr>)"
  by (simp add: main_body_def demo_env_def demo_state_def parseArgs_run isSpecial_def
        line_at_def forkWrapper_def pipeWrapper_def Let_def emit_def
        continueProcessingLine.simps doPipe.simps redirection_of_def
        sys_dup2_def sys_execvp_def upt_rec)

section \<open>The built-in rm\<close>

lemma unlink_follows_open_append:
  assumes "unlink_follows_open xs" and "unlink_follows_open ys"
  shows "unlink_follows_open (xs @ ys)"
proof (intro allI impI)
  fix before after name
  assume eq: "xs @ ys = before @ Unlink name # after"
  then obtain us where
    "(xs = before @ us \<and> us @ ys = Unlink name # after) \<or>
     (xs @ us = before \<and> ys = us @ Unlink name # after)"
    by (auto simp: append_eq_append_conv2)
  then show "\<exists>earlier. before = earlier @ [Open name {O_RDONLY} True]"
  proof
    assume a: "xs = before @ us \<and> us @ ys = Unlink name # after"
    show ?thesis
    proof (cases us)
      case Nil
      with a have "ys = [] @ Unlink name # after" by simp
      with assms(2) have "\<exists>earlier. [] = earlier @ [Open name {O_RDONLY} True]" by blast
      then show ?thesis by simp
    next
      case (Cons u us')
      with a have "xs = before @ Unlink name # us'" by simp
      with assms(1) show ?thesis by blast
    qed
  next
    assume b: "xs @ us = before \<and> ys = us @ Unlink name # after"
    with assms(2) obtain earlier where "us = earlier @ [Open name {O_RDONLY} True]" by blast
    with b have "before = (xs @ earlier) @ [Open name {O_RDONLY} True]" by simp
    then show ?thesis by blast
  qed
qed

lemma unlink_follows_open_blocks:
  "unlink_follows_open [Open name {O_RDONLY} False, Printf (CannotRemove name)]"
  "unlink_follows_open [Open name {O_RDONLY} True, Unlink name, Close fd]"
  by (auto simp: Cons_eq_append_conv)

lemma doRm_loop_trace:
  "\<exists>evs. trace (doRm_loop e rest s) = trace s @ evs \<and> unlink_follows_open evs \<and>
      (\<forall>name. files s name = None \<or> \<not> access_ok e name {O_RDONLY} \<longrightarrow>
          Unlink name \<notin> set evs \<and> (name \<in> set rest \<longrightarrow> Printf (CannotRemove name) \<in> set evs))"
proof (induction rest arbitrary: s)
  case Nil
  show ?case by simp
next
  case (Cons name rest)
  show ?case
  proof (cases "files s name = None \<or> \<not> access_ok e name {O_RDONLY}")
    case True
    define s1 where "s1 = emit [Open name {O_RDONLY} False, Printf (CannotRemove name)] s"
    from True have step: "doRm_loop e (name # rest) s = doRm_loop e rest s1"
      by (auto simp: sys_open_def s1_def emit_emit split: option.splits)
    from Cons.IH [of s1] obtain evs where
      evs: "trace (doRm_loop e rest s1) = trace s1 @ evs" "unlink_follows_open evs"
        "\<forall>n. files s1 n = None \<or> \<not> access_ok e n {O_RDONLY} \<longrightarrow>
            Unlink n \<notin> set evs \<and> (n \<in> set rest \<longrightarrow> Printf (CannotRemove n) \<in> set evs)"
      by blast
    have f1: "files s1 = files s" by (simp add: s1_def emit_fields)
    let ?all = "[Open name {O_RDONLY} False, Printf (CannotRemove name)] @ evs"
    have t1: "trace s1 = trace s @ [Open name {O_RDONLY} False, Printf (CannotRemove name)]"
      by (simp add: s1_def emit_fields)
    have "trace (doRm_loop e (name # rest) s) = trace s @ ?all"
      by (simp only: step evs(1) t1 append_assoc)
    moreover have "unlink_follows_open ?all"
      by (rule unlink_follows_open_append [OF unlink_follows_open_blocks(1) evs(2)])
    moreover have "\<forall>n. files s n = None \<or> \<not> access_ok e n {O_RDONLY} \<longrightarrow>
            Unlink n \<notin> set ?all \<and> (n \<in> set (name # rest) \<longrightarrow> Printf (CannotRemove n) \<in> set ?all)"
      using evs(3) f1 by auto
    ultimately show ?thesis by blast
  next
    case False
    then obtain content where c: "files s name = Some content" and a: "access_ok e name {O_RDONLY}"
      by auto
    define s1 where "s1 = emit [Close (FileFd name)] (sys_unlink e name
        (emit [Open name {O_RDONLY} True] (s\<lparr>files := (files s)(name \<mapsto> content)\<rparr>)))"
    from c a have step: "doRm_loop e (name # rest) s = doRm_loop e rest s1"
      by (simp add: sys_open_def s1_def)
    have t1: "trace s1 = trace s @ [Open name {O_RDONLY} True, Unlink name, Close (FileFd name)]"
      by (simp add: s1_def sys_unlink_def emit_fields)
    have f2: "n \<noteq> name \<Longrightarrow> files s1 n = files s n" for n
      by (simp add: s1_def sys_unlink_def emit_fields)
    from Cons.IH [of s1] obtain evs where
      evs: "trace (doRm_loop e rest s1) = trace s1 @ evs" "unlink_follows_open evs"
        "\<forall>n. files s1 n = None \<or> \<not> access_ok e n {O_RDONLY} \<longrightarrow>
            Unlink n \<notin> set evs \<and> (n \<in> set rest \<longrightarrow> Printf (CannotRemove n) \<in> set evs)"
      by blast
    let ?all = "[Open name {O_RDONLY} True, Unlink name, Close (FileFd name)] @ evs"
    have "trace (doRm_loop e (name # rest) s) = trace s @ ?all"
      by (simp only: step evs(1) t1 append_assoc)
    moreover have "unlink_follows_open ?all"
      by (rule unlink_follows_open_append [OF unlink_follows_open_blocks(2) evs(2)])
    moreover have "\<forall>n. files s n = None \<or> \<not> access_ok e n {O_RDONLY} \<longrightarrow>
            Unlink n \<notin> set ?all \<and> (n \<in> set (name # rest) \<longrightarrow> Printf (CannotRemove n) \<in> set ?all)"
    proof (intro allI impI)
      fix n
      assume bad: "files s n = None \<or> \<not> access_ok e n {O_RDONLY}"
      with c a have ne: "n \<noteq> name" by auto
      from bad f2 [OF ne] have "files s1 n = None \<or> \<not> access_ok e n {O_RDONLY}" by simp
      then have "Unlink n \<notin> set evs \<and> (n \<in> set rest \<longrightarrow> Printf (CannotRemove n) \<in> set evs)"
        using evs(3) by blast
      with ne show "Unlink n \<notin> set ?all \<and> (n \<in> set (name # rest) \<longrightarrow> Printf (CannotRemove n) \<in> set ?all)"
        by simp
    qed
    ultimately show ?thesis by blast
  qed
qed

lemma doRm_loop_files:
  "files s name = None \<or> \<not> access_ok e name {O_RDONLY} \<Longrightarrow>
   files (doRm_loop e rest s) name = files s name"
proof (induction rest arbitrary: s)
  case Nil
  show ?case by simp
next
  case (Cons n rest)
  show ?case
  proof (cases "sys_open e (Some n) {O_RDONLY} s")
    case (Pair r s1)
    show ?thesis
    proof (cases r)
      case None
      with Pair have s1: "files s1 = files s"
        by (auto simp: sys_open_def emit_fields split: option.splits if_splits)
      let ?s2 = "emit [Printf (CannotRemove n)] s1"
      from s1 have f2: "files ?s2 name = files s name"
        by (simp add: emit_fields)
      with Cons.prems have "files ?s2 name = None \<or> \<not> access_ok e name {O_RDONLY}" by simp
      from Cons.IH [OF this] Pair None f2 show ?thesis by simp
    next
      case (Some fd)
      with Pair have ok: "files s n \<noteq> None" "access_ok e n {O_RDONLY}" and s1: "files s1 = files s"
        by (auto simp: sys_open_def emit_fields fun_upd_idem split: option.splits if_splits)
      with Cons.prems have ne: "name \<noteq> n" by auto
      let ?s2 = "emit [Close fd] (sys_unlink e n s1)"
      from ne s1 have f2: "files ?s2 name = files s name"
        by (simp add: sys_unlink_def emit_fields)
      with Cons.prems have "files ?s2 name = None \<or> \<not> access_ok e name {O_RDONLY}" by simp
      from Cons.IH [OF this] Pair Some f2 show ?thesis by simp
    qed
  qed
qed

text \<open>
  Claim C10. With no second argument \<^verbatim>\<open>doRm\<close> prints the error message, makes no other call
  and leaves the files as they are. Otherwise it returns after a run of calls in which every
  \<^verbatim>\<open>unlink\<close> comes right after a successful read-only \<^verbatim>\<open>open\<close> of the same name; and for
  every argument that names no file, or a file that may not be opened for reading, the
  diagnostic is printed, no \<^verbatim>\<open>unlink\<close> of that name is made, and the name stands for the same
  file as before.
\<close>

theorem doRm_unlinks_what_it_can_open:
  "doRm e [''rm''] s = (Ret (), emit [Printf NeedFileName] s) \<and>
   files (emit [Printf NeedFileName] s) = files s \<and>
   (rest \<noteq> [] \<longrightarrow>
      (\<exists>s' evs. doRm e (''rm'' # rest) s = (Ret (), s') \<and> trace s' = trace s @ evs \<and>
          (\<forall>before after name. evs = before @ Unlink name # after \<longrightarrow>
              (\<exists>earlier. before = earlier @ [Open name {O_RDONLY} True])) \<and>
          (\<forall>name \<in> set rest. files s name = None \<or> \<not> access_ok e name {O_RDONLY} \<longrightarrow>
              Printf (CannotRemove name) \<in> set evs \<and> Unlink name \<notin> set evs \<and>
              files s' name = files s name)))"
proof (intro conjI impI)
  show "doRm e [''rm''] s = (Ret (), emit [Printf NeedFileName] s)"
    by (simp add: doRm_def)
  show "files (emit [Printf NeedFileName] s) = files s"
    by (simp add: emit_fields)
next
  assume "rest \<noteq> []"
  then have d: "doRm e (''rm'' # rest) s = (Ret (), doRm_loop e rest s)"
    by (simp add: doRm_def)
  from doRm_loop_trace [of e rest s] obtain evs where
    evs: "trace (doRm_loop e rest s) = trace s @ evs" "unlink_follows_open evs"
      "\<forall>name. files s name = None \<or> \<not> access_ok e name {O_RDONLY} \<longrightarrow>
          Unlink name \<notin> set evs \<and> (name \<in> set rest \<longrightarrow> Printf (CannotRemove name) \<in> set evs)"
    by blast
  have "\<forall>name \<in> set rest. files s name = None \<or> \<not> access_ok e name {O_RDONLY} \<longrightarrow>
          Printf (CannotRemove name) \<in> set evs \<and> Unlink name \<notin> set evs \<and>
          files (doRm_loop e rest s) name = files s name"
    using evs(3) doRm_loop_files [of s _ e rest] by blast
  with d evs(1,2) show "\<exists>s' evs. doRm e (''rm'' # rest) s = (Ret (), s') \<and> trace s' = trace s @ evs \<and>
          (\<forall>before after name. evs = before @ Unlink name # after \<longrightarrow>
              (\<exists>earlier. before = earlier @ [Open name {O_RDONLY} True])) \<and>
          (\<forall>name \<in> set rest. files s name = None \<or> \<not> access_ok e name {O_RDONLY} \<longrightarrow>
              Printf (CannotRemove name) \<in> set evs \<and> Unlink name \<notin> set evs \<and>
              files s' name = files s name)"
    by blast
qed

text \<open>\<^verbatim>\<open>rm a b\<close> where only \<^verbatim>\<open>a\<close> exists: the argument \<^verbatim>\<open>b\<close> is reported and untouched.\<close>

theorem doRm_unlinks_what_it_can_open_witness:
  "[''a'', ''b''] \<noteq> [] \<and> ''b'' \<in> set [''a'', ''b''] \<and>
   files (demo_state [''a'' \<mapsto> ''text'']) ''b'' = None \<and>
   (\<exists>s' evs. doRm (demo_env (\<lambda>k. 0) (\<lambda>k. True)) [''rm'', ''a'', ''b''] (demo_state [''a'' \<mapsto> ''text''])
               = (Ret (), s') \<and>
       trace s' = trace (demo_state [''a'' \<mapsto> ''text'']) @ evs \<and>
       Printf (CannotRemove ''b'') \<in> set evs \<and> Unlink ''b'' \<notin> set evs \<and>
       files s' ''b'' = files (demo_state [''a'' \<mapsto> ''text'']) ''b'')"
proof -
  have h1: "[''a'', ''b''] \<noteq> []" by simp
  have h2: "''b'' \<in> set [''a'', ''b'']" by simp
  have h3: "files (demo_state [''a'' \<mapsto> ''text'']) ''b'' = None"
    by (simp add: demo_state_def)
  from doRm_unlinks_what_it_can_open
         [of "demo_env (\<lambda>k. 0) (\<lambda>k. True)" "demo_state [''a'' \<mapsto> ''text'']" "[''a'', ''b'']"] h1
  obtain s' evs where
    r: "doRm (demo_env (\<lambda>k. 0) (\<lambda>k. True)) [''rm'', ''a'', ''b''] (demo_state [''a'' \<mapsto> ''text''])
          = (Ret (), s')"
       "trace s' = trace (demo_state [''a'' \<mapsto> ''text'']) @ evs"
       "\<forall>name \<in> set [''a'', ''b''].
           files (demo_state [''a'' \<mapsto> ''text'']) name = None \<or>
           \<not> access_ok (demo_env (\<lambda>k. 0) (\<lambda>k. True)) name {O_RDONLY} \<longrightarrow>
           Printf (CannotRemove name) \<in> set evs \<and> Unlink name \<notin> set evs \<and>
           files s' name = files (demo_state [''a'' \<mapsto> ''text'']) name"
    by blast
  from r(3) h2 h3 have
    "Printf (CannotRemove ''b'') \<in> set evs \<and> Unlink ''b'' \<notin> set evs \<and>
     files s' ''b'' = files (demo_state [''a'' \<mapsto> ''text'']) ''b''"
    by blast
  with h1 h2 h3 r(1,2) show ?thesis by blast
qed

text \<open>The calls of that run.\<close>

lemma doRm_example:
  "doRm (demo_env (\<lambda>k. 0) (\<lambda>k. True)) [''rm'', ''a'', ''b''] (demo_state [''a'' \<mapsto> ''text'']) =
     (Ret (),
      \<lparr>childPid = 0, files = Map.empty, forks = 0, pipes = 0,
       trace = [Open ''a'' {O_RDONLY} True, Unlink ''a'', Close (FileFd ''a''),
                Open ''b'' {O_RDONLY} False, Printf (CannotRemove ''b'')]\<rparr>)"
  by (simp add: doRm_def demo_env_def demo_state_def sys_open_def sys_unlink_def emit_def)

section \<open>What the built-in commands can end in\<close>

lemma lsHelper_loop_pipes: "pipes (lsHelper_loop names s) = pipes s"
  by (induction names arbitrary: s) (simp_all add: emit_fields)

lemma lsHelper_result:
  "lsHelper dp s = (r, s') \<Longrightarrow>
   (r = Ret () \<or> r = Stop (Faulted NullArgument)) \<and> pipes s' = pipes s"
  by (auto simp: lsHelper_def emit_fields lsHelper_loop_pipes split: option.splits)

lemma doLs_loop_result:
  "doLs_loop e several ds s = (r, s') \<Longrightarrow>
   (r = Ret () \<or> r = Stop (Faulted NullArgument)) \<and> pipes s' = pipes s"
proof (induction ds arbitrary: s)
  case Nil
  then show ?case by simp
next
  case (Cons d ds)
  show ?case
  proof (cases "dirs e d")
    case None
    with Cons.prems have "doLs_loop e several ds (emit [Opendir d, Printf (CannotOpenDir d)] s) = (r, s')"
      by simp
    from Cons.IH [OF this] show ?thesis by (simp add: emit_fields)
  next
    case (Some names)
    let ?s0 = "if several then emit [Opendir d, Printf (DirHeader d)] s else emit [Opendir d] s"
    have p0: "pipes ?s0 = pipes s" by (simp add: emit_fields)
    obtain r1 s1 where h: "lsHelper (Some names) ?s0 = (r1, s1)"
      by (cases "lsHelper (Some names) ?s0")
    from lsHelper_result [OF h] p0 have
      h1: "r1 = Ret () \<or> r1 = Stop (Faulted NullArgument)" "pipes s1 = pipes s" by simp_all
    show ?thesis
    proof (cases r1)
      case (Stop t)
      with Cons.prems Some h h1 show ?thesis by auto
    next
      case (Ret u)
      with Cons.prems Some h have "doLs_loop e several ds (emit [Closedir] s1) = (r, s')"
        by simp
      from Cons.IH [OF this] h1(2) show ?thesis by (simp add: emit_fields)
    qed
  qed
qed

lemma doLs_result:
  assumes "doLs e args s = (r, s')"
  shows "(r = Ret () \<or> r = Stop (Faulted NullArgument) \<or> r = Stop (Faulted (ReadPastTerminator 1))) \<and>
         pipes s' = pipes s"
proof (cases args)
  case Nil
  with assms show ?thesis by (simp add: doLs_def)
next
  case (Cons arg0 rest)
  show ?thesis
  proof (cases "rest = []")
    case True
    obtain r1 s1 where h: "lsHelper (dirs e ''./'') (emit [Opendir ''./''] s) = (r1, s1)"
      by (cases "lsHelper (dirs e ''./'') (emit [Opendir ''./''] s)")
    from lsHelper_result [OF h] have
      h1: "r1 = Ret () \<or> r1 = Stop (Faulted NullArgument)" "pipes s1 = pipes s"
      by (simp_all add: emit_fields)
    from assms Cons True h h1 show ?thesis
      by (cases r1) (auto simp: doLs_def emit_fields)
  next
    case False
    with assms Cons have "doLs_loop e (2 < length args) rest s = (r, s')"
      by (simp add: doLs_def)
    from doLs_loop_result [OF this] show ?thesis by blast
  qed
qed

lemma doRm_loop_pipes: "pipes (doRm_loop e rest s) = pipes s"
proof (induction rest arbitrary: s)
  case Nil
  show ?case by simp
next
  case (Cons name rest)
  obtain r1 s1 where o: "sys_open e (Some name) {O_RDONLY} s = (r1, s1)"
    by (cases "sys_open e (Some name) {O_RDONLY} s")
  then have "pipes s1 = pipes s"
    by (auto simp: sys_open_def emit_fields split: option.splits if_splits)
  with o Cons.IH show ?case
    by (cases r1) (simp_all add: emit_fields sys_unlink_def)
qed

lemma doRm_result:
  assumes "doRm e args s = (r, s')"
  shows "(r = Ret () \<or> r = Stop (Faulted (ReadPastTerminator 1))) \<and> pipes s' = pipes s"
  using assms
  by (cases args) (auto simp: doRm_def emit_fields doRm_loop_pipes split: if_splits)

section \<open>The cursor\<close>

lemma cursor_ok_single: "i \<le> length line \<Longrightarrow> cursor_ok line i [i]"
  by (simp add: cursor_ok_def)

lemma cursor_ok_lower: "cursor_ok line i path \<Longrightarrow> c \<in> set path \<Longrightarrow> i \<le> c"
  by (cases path) (auto simp: cursor_ok_def)

lemma cursor_ok_start: "cursor_ok line i path \<Longrightarrow> i \<le> length line"
  by (cases path) (auto simp: cursor_ok_def)

lemma cursor_ok_Cons:
  assumes "i < j" and "cursor_ok line j path"
  shows "cursor_ok line i (i # path)"
proof -
  from assms(2) have p: "sorted_wrt (<) path" "\<forall>c \<in> set path. c \<le> length line"
    by (simp_all add: cursor_ok_def)
  from cursor_ok_start [OF assms(2)] assms(1) have "i \<le> length line" by simp
  moreover from cursor_ok_lower [OF assms(2)] assms(1) have "\<forall>c \<in> set path. i < c"
    by fastforce
  ultimately show ?thesis
    using p by (simp add: cursor_ok_def)
qed

lemma cursor_ok_upt:
  assumes "i \<le> j" and "cursor_ok line j path"
  shows "cursor_ok line i ([i..<j] @ path)"
  using assms
proof (induction "j - i" arbitrary: i)
  case 0
  then show ?case by simp
next
  case (Suc n)
  then have lt: "i < j" by simp
  from Suc.hyps(2) have "n = j - Suc i" by simp
  from Suc.hyps(1) [OF this] lt Suc.prems(2)
  have "cursor_ok line (Suc i) ([Suc i..<j] @ path)" by simp
  from cursor_ok_Cons [OF _ this, of i] have "cursor_ok line i (i # [Suc i..<j] @ path)"
    by simp
  with lt show ?case by (simp add: upt_rec)
qed

lemma parseArgs_cases:
  assumes "i \<le> length line"
  shows "(\<exists>args j. parseArgs cap line i = Inr (args, j) \<and> i \<le> j \<and> j \<le> length line \<and>
              j = i + length args) \<or>
         parseArgs cap line i = Inl (WritePastArgs cap)"
proof -
  have "length (takeWhile (\<lambda>t. \<not> isSpecial t) (drop i line)) \<le> length (drop i line)"
    by (rule length_takeWhile_le)
  with assms have "i + length (takeWhile (\<lambda>t. \<not> isSpecial t) (drop i line)) \<le> length line"
    by simp
  with assms show ?thesis
    by (simp add: parseArgs_run)
qed

lemma parseArgs_fits:
  assumes "\<forall>i\<le>length line. length (takeWhile (\<lambda>t. \<not> isSpecial t) (drop i line)) < cap"
    and "i \<le> length line"
  shows "\<exists>args j. parseArgs cap line i = Inr (args, j) \<and> i \<le> j \<and> j \<le> length line \<and>
           j = i + length args"
proof -
  from assms have "length (takeWhile (\<lambda>t. \<not> isSpecial t) (drop i line)) < cap"
    by blast
  with assms(2) have "parseArgs cap line i \<noteq> Inl (WritePastArgs cap)"
    by (simp add: parseArgs_run)
  with parseArgs_cases [OF assms(2), of cap] show ?thesis
    by blast
qed

lemma line_at_inside: "i \<le> length line \<Longrightarrow> \<exists>tok. line_at line i = Some tok"
  by (simp add: line_at_def)

lemma doPipe_run_ok:
  assumes cap: "\<forall>i\<le>length line. length (takeWhile (\<lambda>t. \<not> isSpecial t) (drop i line)) < MAX_ARGS e"
    and i: "2 \<le> i" "i \<le> length line"
    and IH: "\<And>j args s. i \<le> j \<Longrightarrow> j \<le> length line \<Longrightarrow>
               run_ok line j (continueProcessingLine e line j args s)"
  shows "run_ok line i (doPipe e p1Args line i s)"
proof -
  from i have "0 < length line" by linarith
  then have l0: "line_at line 0 = Some (Some (line ! 0))"
    by (rule line_at_simps(1))
  from i have "2 \<le> length line" by linarith
  from line_at_inside [OF this] obtain tok2 where l2: "line_at line 2 = Some tok2"
    by blast
  have single: "cursor_ok line i [i]"
    by (rule cursor_ok_single [OF i(2)])
  show ?thesis
  proof (cases "pipeWrapper e s")
    case (Pair r1 s1)
    show ?thesis
    proof (cases r1)
      case (Stop t)
      then have "t = Exited 0"
        using Pair by (auto simp: pipeWrapper_def Let_def split: if_splits)
      with Pair Stop single show ?thesis
        by (simp add: doPipe.simps run_ok_def)
    next
      case (Ret pfd)
      obtain rd wr where pfd: "pfd = (rd, wr)" by (cases pfd)
      show ?thesis
      proof (cases "forkWrapper e s1")
        case fw: (Pair r2 s2)
        show ?thesis
        proof (cases r2)
          case (Stop t)
          then have "t = Exited 2"
            using fw by (auto simp: forkWrapper_def Let_def split: if_splits)
          with Pair Ret pfd fw Stop single show ?thesis
            by (simp add: doPipe.simps run_ok_def)
        next
          case r2: (Ret pid)
          show ?thesis
          proof (cases "pid = 0")
            case True
            have "\<exists>r s4. sys_execvp e (Some (line ! 0)) p1Args
                    (emit [Close rd] (snd (sys_dup2 e wr Stdout s2))) = (r, s4) \<and>
                    (\<forall>k. r \<noteq> Stop (Faulted (ReadPastSentinel k))) \<and>
                    (\<forall>k. r \<noteq> Stop (Faulted (WritePastArgs k)))"
              by (simp add: sys_execvp_def)
            then obtain r s4 where
              ex: "sys_execvp e (Some (line ! 0)) p1Args
                     (emit [Close rd] (snd (sys_dup2 e wr Stdout s2))) = (r, s4)"
              and nr: "\<forall>k. r \<noteq> Stop (Faulted (ReadPastSentinel k))"
                "\<forall>k. r \<noteq> Stop (Faulted (WritePastArgs k))"
              by blast
            from Pair Ret pfd fw r2 True l0 ex nr single show ?thesis
              by (cases r) (simp_all add: doPipe.simps run_ok_def Let_def)
          next
            case False
            let ?s3 = "emit [Close wr] (snd (sys_dup2 e rd Stdin s2))"
            have "\<exists>r s4. sys_execvp e tok2 p1Args ?s3 = (r, s4) \<and>
                    (\<forall>k. r \<noteq> Stop (Faulted (ReadPastSentinel k))) \<and>
                    (\<forall>k. r \<noteq> Stop (Faulted (WritePastArgs k)))"
              by (cases tok2) (simp_all add: sys_execvp_def)
            then obtain r s4 where
              ex: "sys_execvp e tok2 p1Args ?s3 = (r, s4)"
              and nr: "\<forall>k. r \<noteq> Stop (Faulted (ReadPastSentinel k))"
                "\<forall>k. r \<noteq> Stop (Faulted (WritePastArgs k))"
              by blast
            show ?thesis
            proof (cases r)
              case (Stop t)
              with Pair Ret pfd fw r2 False l2 ex nr single show ?thesis
                by (simp add: doPipe.simps run_ok_def Let_def)
            next
              case ret: (Ret v)
              show ?thesis
              proof -
                from parseArgs_fits [OF cap i(2)] obtain args j where
                  pa: "parseArgs (MAX_ARGS e) line i = Inr (args, j)" and j: "i \<le> j" "j \<le> length line"
                  by blast
                obtain r' path s5 where
                  rec: "continueProcessingLine e line j args s4 = (r', path, s5)"
                  by (cases "continueProcessingLine e line j args s4") auto
                from IH [OF j, of args s4] rec have
                  ok: "cursor_ok line j path" "\<forall>k. r' \<noteq> Stop (Faulted (ReadPastSentinel k))"
                    "\<forall>k. r' \<noteq> Stop (Faulted (WritePastArgs k))"
                  by (simp_all add: run_ok_def)
                from Pair Ret pfd fw r2 False l2 ex ret pa rec
                have "doPipe e p1Args line i s = (r', [i..<j] @ path, s5)"
                  by (simp add: doPipe.simps Let_def)
                with ok cursor_ok_upt [OF j(1) ok(1)] show ?thesis
                  by (simp add: run_ok_def)
              qed
            qed
          qed
        qed
      qed
    qed
  qed
qed

lemma redirect_stop:
  assumes "redirection_of token = Some redirect" and "redirect e filename s = (Stop t, s1)"
  shows "t = Exited 1"
proof -
  from assms(1) have "redirect = doAppendRedirection \<or> redirect = doStderrRedirection \<or>
      redirect = doStdoutStderrRedirection \<or> redirect = doStdoutRedirection \<or>
      redirect = doStdinRedirection"
    by (auto simp: redirection_of_def split: if_splits)
  with assms(2) show ?thesis
    by (auto simp: doAppendRedirection_def doStderrRedirection_def doStdoutStderrRedirection_def
          doStdoutRedirection_def doStdinRedirection_def
        split: option.splits prod.splits bool.splits)
qed

lemma redirect_null:
  assumes "redirection_of token = Some redirect"
  shows "\<exists>s1. redirect e None s = (Stop (Exited 1), s1)"
proof -
  from assms(1) have "redirect = doAppendRedirection \<or> redirect = doStderrRedirection \<or>
      redirect = doStdoutStderrRedirection \<or> redirect = doStdoutRedirection \<or>
      redirect = doStdinRedirection"
    by (auto simp: redirection_of_def split: if_splits)
  then show ?thesis
    by (auto simp: doAppendRedirection_def doStderrRedirection_def doStdoutStderrRedirection_def
          doStdoutRedirection_def doStdinRedirection_def sys_open_def)
qed

lemma continueProcessingLine_run_ok:
  assumes cap: "\<forall>i\<le>length line. length (takeWhile (\<lambda>t. \<not> isSpecial t) (drop i line)) < MAX_ARGS e"
  shows "1 \<le> i \<Longrightarrow> i \<le> length line \<Longrightarrow> run_ok line i (continueProcessingLine e line i args s)"
proof (induction "length line - i" arbitrary: i args s rule: less_induct)
  case less
  from less.prems have "0 < length line" by linarith
  then have l0: "line_at line 0 = Some (Some (line ! 0))"
    by (rule line_at_simps(1))
  have single: "cursor_ok line i [i]"
    by (rule cursor_ok_single [OF less.prems(2)])
  show ?case
  proof (cases "i = length line")
    case True
    then have li: "line_at line i = Some None"
      by (simp add: line_at_simps)
    from li l0 single show ?thesis
      by (simp add: continueProcessingLine.simps run_ok_def sys_execvp_def)
  next
    case False
    with less.prems have lt: "i < length line" by simp
    then have li: "line_at line i = Some (Some (line ! i))"
      by (rule line_at_simps(1))
    from lt have "Suc i \<le> length line" by simp
    from line_at_inside [OF this] obtain filename where lf: "line_at line (Suc i) = Some filename"
      by blast
    have two: "cursor_ok line i [i, Suc i]"
      using lt by (simp add: cursor_ok_def)
    show ?thesis
    proof (cases "redirection_of (line ! i)")
      case (Some redirect)
      obtain r1 s1 where rd: "redirect e filename s = (r1, s1)"
        by (cases "redirect e filename s")
      show ?thesis
      proof (cases r1)
        case (Stop t)
        from redirect_stop [OF Some rd [unfolded Stop]] li lf Some rd Stop two show ?thesis
          by (auto simp: continueProcessingLine.simps run_ok_def)
      next
        case (Ret u)
        have "filename \<noteq> None"
        proof
          assume "filename = None"
          with redirect_null [OF Some, of e s] rd Ret show False by auto
        qed
        with lf \<open>Suc i \<le> length line\<close> have lt2: "Suc i < length line"
          by (auto simp: line_at_def split: if_splits)
        then have m: "length line - Suc (Suc i) < length line - i" by simp
        from lt2 have b: "1 \<le> Suc (Suc i)" "Suc (Suc i) \<le> length line" by simp_all
        obtain r' path s2 where
          rec: "continueProcessingLine e line (Suc (Suc i)) args s1 = (r', path, s2)"
          by (cases "continueProcessingLine e line (Suc (Suc i)) args s1") auto
        from less.hyps [OF m b, of args s1] rec have
          ok: "cursor_ok line (Suc (Suc i)) path" "\<forall>k. r' \<noteq> Stop (Faulted (ReadPastSentinel k))"
            "\<forall>k. r' \<noteq> Stop (Faulted (WritePastArgs k))"
          by (simp_all add: run_ok_def)
        have "cursor_ok line (Suc i) (Suc i # path)"
          by (rule cursor_ok_Cons [OF _ ok(1)]) simp
        then have "cursor_ok line i (i # Suc i # path)"
          by (rule cursor_ok_Cons [rotated]) simp
        moreover from li lf Some rd Ret rec
        have "continueProcessingLine e line i args s = (r', i # Suc i # path, s2)"
          by (simp add: continueProcessingLine.simps)
        ultimately show ?thesis
          using ok(2,3) by (simp add: run_ok_def)
      qed
    next
      case None
      show ?thesis
      proof (cases "line ! i = ''|''")
        case True
        from less.prems lt have b: "2 \<le> Suc i" "Suc i \<le> length line" by simp_all
        have "run_ok line (Suc i) (doPipe e args line (Suc i) s)"
        proof (rule doPipe_run_ok [OF cap b])
          fix j args' s'
          assume j: "Suc i \<le> j" "j \<le> length line"
          with lt have "length line - j < length line - i" by linarith
          moreover from j have "1 \<le> j" by simp
          ultimately show "run_ok line j (continueProcessingLine e line j args' s')"
            using j(2) by (rule less.hyps)
        qed
        then obtain r' path s1 where
          dp: "doPipe e args line (Suc i) s = (r', path, s1)"
          and ok: "cursor_ok line (Suc i) path" "\<forall>k. r' \<noteq> Stop (Faulted (ReadPastSentinel k))"
            "\<forall>k. r' \<noteq> Stop (Faulted (WritePastArgs k))"
          by (cases "doPipe e args line (Suc i) s") (auto simp: run_ok_def)
        have "cursor_ok line i (i # path)"
          by (rule cursor_ok_Cons [OF _ ok(1)]) simp
        moreover from li None True dp
        have "continueProcessingLine e line i args s = (r', i # path, s1)"
          by (simp add: continueProcessingLine.simps)
        ultimately show ?thesis
          using ok(2,3) by (simp add: run_ok_def)
      next
        case False
        with li None single show ?thesis
          by (simp add: continueProcessingLine.simps run_ok_def)
      qed
    qed
  qed
qed

lemma sorted_wrt_less_last:
  "sorted_wrt (<) xs \<Longrightarrow> (x::nat) \<in> set xs \<Longrightarrow> x \<le> last xs"
  by (induction xs) (auto simp: less_imp_le)

lemma main_body_run_ok:
  assumes cap: "\<forall>i\<le>length line. length (takeWhile (\<lambda>t. \<not> isSpecial t) (drop i line)) < MAX_ARGS e"
  shows "run_ok line 0 (main_body e line s)"
proof (cases line)
  case Nil
  then show ?thesis
    by (simp add: main_body_def line_at_def run_ok_def cursor_ok_def)
next
  case (Cons token tokens)
  then have l0: "line_at line 0 = Some (Some token)"
    by (simp add: line_at_def)
  have zero: "cursor_ok line 0 [0]"
    by (simp add: cursor_ok_def)
  show ?thesis
  proof -
    from parseArgs_fits [OF cap le0] obtain args j where
      pa: "parseArgs (MAX_ARGS e) line 0 = Inr (args, j)" and j: "j \<le> length line" "j = length args"
      by auto
    have "cursor_ok line 0 ([0..<j] @ [j])"
      by (rule cursor_ok_upt [OF _ cursor_ok_single [OF j(1)]]) simp
    then have whole: "cursor_ok line 0 [0..<Suc j]" by simp
    show ?thesis
    proof (cases args)
      case Nil
      with l0 pa whole show ?thesis
        by (simp add: main_body_def run_ok_def)
    next
      case args: (Cons arg0 rest)
      with j have j1: "1 \<le> j" by simp
      consider (ls) "arg0 = ''ls''" | (rm) "arg0 \<noteq> ''ls''" "arg0 = ''rm''"
        | (run) "arg0 \<noteq> ''ls''" "arg0 \<noteq> ''rm''"
        by blast
      then show ?thesis
      proof cases
        case ls
        obtain r s1 where d: "doLs e args s = (r, s1)" by (cases "doLs e args s")
        from doLs_result [OF d] l0 pa args ls d whole show ?thesis
          by (auto simp: main_body_def run_ok_def)
      next
        case rm
        obtain r s1 where d: "doRm e args s = (r, s1)" by (cases "doRm e args s")
        from doRm_result [OF d] l0 pa args rm d whole show ?thesis
          by (auto simp: main_body_def run_ok_def)
      next
        case run
        obtain r1 s1 where fw: "forkWrapper e s = (r1, s1)" by (cases "forkWrapper e s")
        show ?thesis
        proof (cases r1)
          case (Stop t)
          with fw have "t = Exited 2"
            by (auto simp: forkWrapper_def Let_def split: if_splits)
          with l0 pa args run fw Stop whole show ?thesis
            by (simp add: main_body_def run_ok_def)
        next
          case (Ret pid)
          show ?thesis
          proof (cases "pid = 0")
            case False
            with l0 pa args run fw Ret whole show ?thesis
              by (simp add: main_body_def run_ok_def)
          next
            case True
            obtain r' path s2 where
              rec: "continueProcessingLine e line j args (s1\<lparr>childPid := pid\<rparr>) = (r', path, s2)"
              by (cases "continueProcessingLine e line j args (s1\<lparr>childPid := pid\<rparr>)") auto
            from continueProcessingLine_run_ok [OF cap j1 j(1), of args "s1\<lparr>childPid := pid\<rparr>"] rec
            have ok: "cursor_ok line j path" "\<forall>k. r' \<noteq> Stop (Faulted (ReadPastSentinel k))"
              "\<forall>k. r' \<noteq> Stop (Faulted (WritePastArgs k))"
              by (simp_all add: run_ok_def)
            have "cursor_ok line 0 ([0..<j] @ path)"
              by (rule cursor_ok_upt [OF _ ok(1)]) simp
            moreover from l0 pa args run fw Ret True rec
            have "main_body e line s = (r', [0..<j] @ path, s2)"
              by (simp add: main_body_def)
            ultimately show ?thesis
              using ok(2,3) by (simp add: run_ok_def)
          qed
        qed
      qed
    qed
  qed
qed

text \<open>
  Claim C8 says, beside the bounds, that the cursor on the sentinel is the only state in which the
  interpretation of a line ends. The line \<^verbatim>\<open>/bin/cat < missing.txt\<close> has three tokens. The
  child of the shell moves the cursor to the file name, \<^verbatim>\<open>open\<close> fails, and
  \<^verbatim>\<open>doStdinRedirection\<close> ends the process with status 1: the cursor is 2 and stays there.
\<close>

theorem cursor_terminal_counterexample:
  "(case main_body (demo_env (\<lambda>k. 0) (\<lambda>k. True)) [''/bin/cat'', ''<'', ''missing.txt'']
          (demo_state Map.empty) of
      (r, path, s') \<Rightarrow>
        r = Stop (Exited 1) \<and> path = [0, 1, 2] \<and>
        last path \<noteq> length [''/bin/cat'', ''<'', ''missing.txt''] \<and>
        trace s' = [Fork 0, Open ''missing.txt'' {O_RDONLY} False, Perror ''Error opening file''])"
  by (simp add: main_body_def demo_env_def demo_state_def parseArgs_run isSpecial_def
        line_at_def forkWrapper_def Let_def emit_def
        continueProcessingLine.simps redirection_of_def doStdinRedirection_def sys_open_def upt_rec)

text \<open>
  The left-hand stage of a pipeline ends its part with the cursor right behind the pipe symbol,
  and a token that \<^verbatim>\<open>continueProcessingLine\<close> does not know makes it return where it is.
\<close>

lemma left_stage_stops_behind_the_pipe:
  "main_body (demo_env (\<lambda>k. 0) (\<lambda>k. True)) [''/bin/ls'', ''|'', ''/bin/wc''] (demo_state Map.empty) =
     (Stop (Replaced ''/bin/ls'' [''/bin/ls'']), [0, 1, 2],
      \<lparr>childPid = 0, files = Map.empty, forks = 2, pipes = 1,
       trace = [Fork 0, Pipe 0 True, Fork 0, Dup2 (PipeWrite 0) Stdout, Close (PipeRead 0),
                Execvp ''/bin/ls'' [''/bin/ls'']]\<rparr>)"
  by (simp add: main_body_def demo_env_def demo_state_def parseArgs_run isSpecial_def
        line_at_def forkWrapper_def pipeWrapper_def Let_def emit_def
        continueProcessingLine.simps doPipe.simps redirection_of_def
        sys_dup2_def sys_execvp_def upt_rec)

lemma unknown_token_returns:
  "main_body (demo_env (\<lambda>k. 0) (\<lambda>k. True)) [''/bin/cat'', ''>'', ''out'', ''more'']
      (demo_state Map.empty) =
     (Ret (), [0, 1, 2, 3],
      \<lparr>childPid = 0, files = [''out'' \<mapsto> ''''], forks = 1, pipes = 0,
       trace = [Fork 0, Open ''out'' {O_TRUNC, O_WRONLY, O_CREAT} True,
                Dup2 (FileFd ''out'') Stdout, Fflush Stdout, Close (FileFd ''out'')]\<rparr>)"
  by (simp add: main_body_def demo_env_def demo_state_def parseArgs_run isSpecial_def
        line_at_def forkWrapper_def Let_def emit_def
        continueProcessingLine.simps redirection_of_def doStdoutRedirection_def sys_open_def
        sys_dup2_def upt_rec)

text \<open>
  A line that ends in an operator: the cursor moves onto the sentinel and the \<^verbatim>\<open>NULL\<close> found
  there is handed on. As a file name it makes \<^verbatim>\<open>open\<close> fail, and the redirection reports
  that and exits with status 1; as the program of \<^verbatim>\<open>execvp\<close> it is a fault. Either way the
  run stops there, and nothing beyond the sentinel is read.
\<close>

lemma trailing_operator_stops_on_sentinel:
  "main_body (demo_env (\<lambda>k. 0) (\<lambda>k. True)) [''/bin/cat'', ''>''] (demo_state Map.empty) =
     (Stop (Exited 1), [0, 1, 2],
      \<lparr>childPid = 0, files = Map.empty, forks = 1, pipes = 0,
       trace = [Fork 0, Open_NULL {O_TRUNC, O_WRONLY, O_CREAT}, Perror ''Error opening file'']\<rparr>)"
  by (simp add: main_body_def demo_env_def demo_state_def parseArgs_run isSpecial_def
        line_at_def forkWrapper_def Let_def emit_def
        continueProcessingLine.simps redirection_of_def doStdoutRedirection_def sys_open_def upt_rec)

lemma trailing_pipe_stops_on_sentinel:
  "main_body (demo_env (\<lambda>k. if k = 0 then 0 else 7) (\<lambda>k. True)) [''/bin/cat'', ''|'']
      (demo_state Map.empty) =
     (Stop (Faulted NullArgument), [0, 1, 2],
      \<lparr>childPid = 0, files = Map.empty, forks = 2, pipes = 1,
       trace = [Fork 0, Pipe 0 True, Fork 7, Dup2 (PipeRead 0) Stdin, Close (PipeWrite 0)]\<rparr>)"
  by (simp add: main_body_def demo_env_def demo_state_def parseArgs_run isSpecial_def
        line_at_def forkWrapper_def pipeWrapper_def Let_def emit_def
        continueProcessingLine.simps doPipe.simps redirection_of_def
        sys_dup2_def sys_execvp_def upt_rec)

lemma short_line_fits:
  assumes "length line < cap"
  shows "\<forall>i\<le>length line. length (takeWhile (\<lambda>t. \<not> isSpecial t) (drop i line)) < cap"
proof (intro allI impI)
  fix i
  have "length (takeWhile (\<lambda>t. \<not> isSpecial t) (drop i line)) \<le> length (drop i line)"
    by (rule length_takeWhile_le)
  with assms show "length (takeWhile (\<lambda>t. \<not> isSpecial t) (drop i line)) < cap"
    by simp
qed

text \<open>
  Claim C8, amended. Take any line in which every run of plain tokens is shorter than
  \<^verbatim>\<open>MAX_ARGS\<close> (every line of fewer than \<^verbatim>\<open>MAX_ARGS\<close> tokens is one, malformed or not), in
  any environment. During one turn of the loop of \<^verbatim>\<open>main\<close> the cursor starts at 0, every
  later value is larger than the one before (it is never rewound), no value lies beyond the
  sentinel position \<open>length line\<close>, once the cursor is on the sentinel it does not move again,
  and the run ends neither in a read of \<^verbatim>\<open>line\<close> beyond the sentinel nor in a write behind
  \<^verbatim>\<open>args\<close>. The run may end with the cursor before the sentinel.
\<close>

theorem cursor_stays_inside_line:
  assumes "\<forall>i\<le>length line. length (takeWhile (\<lambda>t. \<not> isSpecial t) (drop i line)) < MAX_ARGS e"
  shows "case main_body e line s of
     (r, path, s') \<Rightarrow>
       path \<noteq> [] \<and> hd path = 0 \<and> sorted_wrt (<) path \<and>
       (\<forall>c \<in> set path. c \<le> length line) \<and>
       (length line \<in> set path \<longrightarrow> last path = length line) \<and>
       (\<forall>k. r \<noteq> Stop (Faulted (ReadPastSentinel k))) \<and>
       (\<forall>k. r \<noteq> Stop (Faulted (WritePastArgs k)))"
proof -
  obtain r path s' where m: "main_body e line s = (r, path, s')"
    by (cases "main_body e line s") auto
  from main_body_run_ok [OF assms, of s] m have
    ok: "path \<noteq> []" "hd path = 0" "sorted_wrt (<) path" "\<forall>c \<in> set path. c \<le> length line"
      "\<forall>k. r \<noteq> Stop (Faulted (ReadPastSentinel k))"
      "\<forall>k. r \<noteq> Stop (Faulted (WritePastArgs k))"
    by (simp_all add: run_ok_def cursor_ok_def)
  have "last path = length line" if "length line \<in> set path"
  proof -
    from sorted_wrt_less_last [OF ok(3) that] have "length line \<le> last path" .
    moreover from ok(1,4) have "last path \<le> length line" by simp
    ultimately show ?thesis by simp
  qed
  with ok m show ?thesis by simp
qed

text \<open>
  The last stage of \<^verbatim>\<open>/bin/ls -l | /bin/wc\<close> with room for 1024 entries: the cursor takes
  the values 0 to 4.
\<close>

theorem cursor_stays_inside_line_witness:
  "length [''/bin/ls'', ''-l'', ''|'', ''/bin/wc'']
     < MAX_ARGS (demo_env (\<lambda>k. if k = 0 then 0 else 7) (\<lambda>k. True)) \<and>
   (case main_body (demo_env (\<lambda>k. if k = 0 then 0 else 7) (\<lambda>k. True))
          [''/bin/ls'', ''-l'', ''|'', ''/bin/wc''] (demo_state Map.empty) of
      (r, path, s') \<Rightarrow>
        path = [0, 1, 2, 3, 4] \<and> hd path = 0 \<and> sorted_wrt (<) path \<and>
        (\<forall>c \<in> set path. c \<le> length [''/bin/ls'', ''-l'', ''|'', ''/bin/wc'']) \<and>
        last path = length [''/bin/ls'', ''-l'', ''|'', ''/bin/wc''] \<and>
        (\<forall>k. r \<noteq> Stop (Faulted (ReadPastSentinel k))) \<and>
        (\<forall>k. r \<noteq> Stop (Faulted (WritePastArgs k))))"
proof -
  have fits: "\<forall>i\<le>length [''/bin/ls'', ''-l'', ''|'', ''/bin/wc''].
      length (takeWhile (\<lambda>t. \<not> isSpecial t) (drop i [''/bin/ls'', ''-l'', ''|'', ''/bin/wc'']))
        < MAX_ARGS (demo_env (\<lambda>k. if k = 0 then 0 else 7) (\<lambda>k. True))"
    by (rule short_line_fits) (simp add: demo_env_def)
  have short: "length [''/bin/ls'', ''-l'', ''|'', ''/bin/wc'']
      < MAX_ARGS (demo_env (\<lambda>k. if k = 0 then 0 else 7) (\<lambda>k. True))"
    by (simp add: demo_env_def)
  from cursor_stays_inside_line [OF fits, of "demo_state Map.empty"] short show ?thesis
    by (simp add: right_stage_runs_left_program)
qed

section \<open>Failure of pipe\<close>




end
